theory Spec2Isabelle
  imports Main "HOL-Library.Sublist" "HOL-Library.Multiset"
begin

section \<open>JavaScript values used by the dashboard code\<close>

text \<open>
  Strings are \<^typ>\<open>string\<close> (lists of bytes). Numbers that the code reads from member
  records and from HTTP headers are integers; a field that is \<^verbatim>\<open>undefined\<close> or
  \<^verbatim>\<open>null\<close> is \<open>None\<close>. Both are falsy and both are turned into \<open>0\<close> by the
  \<^verbatim>\<open>x || 0\<close> idiom, which is the only way the code reads such a field.
\<close>

definition or0 :: "int option \<Rightarrow> int" where
  "or0 v = (case v of None \<Rightarrow> 0 | Some n \<Rightarrow> n)"

definition truthy_num :: "int option \<Rightarrow> bool" where
  "truthy_num v = (case v of None \<Rightarrow> False | Some n \<Rightarrow> n \<noteq> 0)"

definition truthy_str :: "string option \<Rightarrow> bool" where
  "truthy_str v = (case v of None \<Rightarrow> False | Some s \<Rightarrow> s \<noteq> [])"

definition str_or_empty :: "string option \<Rightarrow> string" where
  "str_or_empty v = (case v of None \<Rightarrow> [] | Some s \<Rightarrow> s)"

text \<open>
  \<^verbatim>\<open>String.prototype.trim\<close> removes white space at both ends. The ASCII white space
  characters are tab, line feed, vertical tab, form feed, carriage return and space.
\<close>

definition is_ws :: "char \<Rightarrow> bool" where
  "is_ws c = (c = CHR 0x09 \<or> c = CHR 0x0A \<or> c = CHR 0x0B \<or> c = CHR 0x0C \<or> c = CHR 0x0D \<or> c = CHR '' '')"

definition trim :: "string \<Rightarrow> string" where
  "trim s = rev (dropWhile is_ws (rev (dropWhile is_ws s)))"

section \<open>Member records\<close>

text \<open>
  A language entry of the list form is a string, an object with a \<^verbatim>\<open>name\<close> and
  optional \<^verbatim>\<open>count\<close> and \<^verbatim>\<open>value\<close>, or anything else (\<open>LOther\<close>: \<^verbatim>\<open>null\<close>,
  a number, an object without a name).
\<close>

datatype lang_item =
    LStr string
  | LEntry "string option" "int option" "int option"
  | LOther

datatype languages_val =
    LangObj "(string \<times> int option) list"
  | LangArr "lang_item list"
  | LangOther

record pull_request =
  created_at :: "int option"

record activity =
  commits :: "int option"
  contributions :: "int option"
  pullRequests :: "int option"
  mergedPRs :: "int option"
  openPRs :: "int option"
  closedPRs :: "int option"
  languages :: "languages_val option"
  recentPRs :: "pull_request list option"

record member =
  displayName :: "string option"
  firstName :: "string option"
  lastName :: "string option"
  githubActivity :: "activity option"

section \<open>Dashboard: pull request trend (getPRTrendsData)\<close>

text \<open>
  \<open>midnight k\<close> is the local midnight, in milliseconds, of the day \<open>k\<close> days before
  today: what \<^verbatim>\<open>new Date(d.getFullYear(), d.getMonth(), d.getDate())\<close> gives after
  \<^verbatim>\<open>d.setDate(d.getDate() - k)\<close>. A \<^verbatim>\<open>created_at\<close> that does not parse as a date
  is \<open>None\<close>; every comparison with it is false.
\<close>

definition dayStarts :: "(nat \<Rightarrow> int) \<Rightarrow> nat \<Rightarrow> int list" where
  "dayStarts midnight days = map (\<lambda>i. midnight (days - 1 - i)) [0..<days]"

fun find_day :: "int list \<Rightarrow> nat \<Rightarrow> int \<Rightarrow> nat option" where
  "find_day [] i created = None"
| "find_day (start # rest) i created =
     (if start \<le> created \<and> created < start + 24 * 60 * 60 * 1000 then Some i
      else find_day rest (Suc i) created)"

definition count_pr :: "int list \<Rightarrow> int list \<Rightarrow> pull_request \<Rightarrow> int list" where
  "count_pr starts buckets pr =
     (case created_at pr of
        None \<Rightarrow> buckets
      | Some created \<Rightarrow>
          (case find_day starts 0 created of
             None \<Rightarrow> buckets
           | Some i \<Rightarrow> buckets[i := buckets ! i + 1]))"

definition recent_of :: "member \<Rightarrow> pull_request list" where
  "recent_of m =
     (case githubActivity m of
        None \<Rightarrow> []
      | Some a \<Rightarrow> (case recentPRs a of None \<Rightarrow> [] | Some ps \<Rightarrow> ps))"

definition count_member :: "int list \<Rightarrow> int list \<times> bool \<Rightarrow> member \<Rightarrow> int list \<times> bool" where
  "count_member starts acc m =
     (let recent = recent_of m;
          hasTimestamps = (if recent \<noteq> [] then True else snd acc)
      in (foldl (count_pr starts) (fst acc) recent, hasTimestamps))"

definition pulls_of :: "member \<Rightarrow> int" where
  "pulls_of m = (case githubActivity m of None \<Rightarrow> 0 | Some a \<Rightarrow> or0 (pullRequests a))"

definition totalPRs :: "member list \<Rightarrow> int" where
  "totalPRs members = foldl (\<lambda>sum m. sum + pulls_of m) 0 members"

function fill_buckets :: "nat \<Rightarrow> int \<Rightarrow> nat \<Rightarrow> int \<Rightarrow> int list \<Rightarrow> int list" where
  "fill_buckets days base i rem buckets =
     (if i < days
      then fill_buckets days base (Suc i) (if rem > 0 then rem - 1 else rem)
             (buckets[i := base + (if rem > 0 then 1 else 0)])
      else buckets)"
  by pat_completeness auto
termination
  by (relation "measure (\<lambda>(days, base, i, rem, buckets). days - i)") auto

definition getPRTrendsData :: "(nat \<Rightarrow> int) \<Rightarrow> member list \<Rightarrow> nat \<Rightarrow> int list" where
  "getPRTrendsData midnight members days =
     (let starts = dayStarts midnight days;
          (buckets, hasTimestamps) = foldl (count_member starts) (replicate days 0, False) members
      in if hasTimestamps then buckets
         else (let total = totalPRs members;
                   base = total div int days;
                   rem = total - base * int days
               in fill_buckets days base 0 rem buckets))"

text \<open>Two members with 4 and 3 pull requests and no \<^verbatim>\<open>recentPRs\<close>.\<close>

definition plain_activity :: activity where
  "plain_activity = \<lparr>commits = None, contributions = None, pullRequests = None, mergedPRs = None,
     openPRs = None, closedPRs = None, languages = None, recentPRs = None\<rparr>"

definition plain_member :: member where
  "plain_member = \<lparr>displayName = None, firstName = None, lastName = None, githubActivity = None\<rparr>"

definition member_with_pulls :: "int \<Rightarrow> member" where
  "member_with_pulls n =
     plain_member\<lparr>githubActivity := Some (plain_activity\<lparr>pullRequests := Some n\<rparr>)\<rparr>"

section \<open>Properties of the fallback distribution\<close>

lemma foldl_count_member_none:
  "\<forall>m \<in> set members. recent_of m = [] \<Longrightarrow>
   foldl (count_member starts) (bs, h) members = (bs, h)"
  by (induction members arbitrary: bs h) (simp_all add: count_member_def)

declare fill_buckets.simps [simp del]

lemma length_fill_buckets: "length (fill_buckets days base i rem bs) = length bs"
  by (induction days base i rem bs rule: fill_buckets.induct)
     (subst fill_buckets.simps, simp)

lemma fill_buckets_nth:
  "length bs = days \<Longrightarrow> j < days \<Longrightarrow> 0 \<le> rem \<Longrightarrow>
   fill_buckets days base i rem bs ! j =
     (if j < i then bs ! j else base + (if int (j - i) < rem then 1 else 0))"
proof (induction days base i rem bs rule: fill_buckets.induct)
  case (1 days base i rem buckets)
  show ?case
  proof (cases "i < days")
    case False
    with "1.prems" show ?thesis by (subst fill_buckets.simps) simp
  next
    case True
    let ?rem' = "if rem > 0 then rem - 1 else rem"
    let ?bs' = "buckets[i := base + (if rem > 0 then 1 else 0)]"
    have ih: "fill_buckets days base (Suc i) ?rem' ?bs' ! j =
        (if j < Suc i then ?bs' ! j else base + (if int (j - Suc i) < ?rem' then 1 else 0))"
      using "1.IH"[OF True] "1.prems" by simp
    have "fill_buckets days base i rem buckets ! j = fill_buckets days base (Suc i) ?rem' ?bs' ! j"
      using True by (subst fill_buckets.simps) simp
    also have "\<dots> = (if j < i then buckets ! j else base + (if int (j - i) < rem then 1 else 0))"
    proof -
      consider "j < i" | "j = i" | "i < j" by linarith
      then show ?thesis
      proof cases
        case 1 then show ?thesis using ih by simp
      next
        case 2 then show ?thesis using ih "1.prems" True by simp
      next
        case 3
        then have "int (j - i) = int (j - Suc i) + 1" by simp
        then show ?thesis using ih 3 "1.prems" by auto
      qed
    qed
    finally show ?thesis .
  qed
qed

lemma sum_list_step_buckets:
  "r \<le> n \<Longrightarrow> sum_list (map (\<lambda>j. base + (if j < r then 1 else 0 :: int)) [0..<n]) = int n * base + int r"
proof (induction n arbitrary: r)
  case 0
  then show ?case by simp
next
  case (Suc n)
  show ?case
  proof (cases "r = Suc n")
    case True
    have "sum_list (map (\<lambda>j. base + (if j < r then 1 else 0 :: int)) [0..<n])
          = sum_list (map (\<lambda>j. base + (if j < n then 1 else 0 :: int)) [0..<n])"
      using True by (intro arg_cong[where f = sum_list] map_cong) auto
    also have "\<dots> = int n * base + int n" using Suc.IH[of n] by simp
    finally show ?thesis using True by (simp add: algebra_simps)
  next
    case False
    with Suc.prems have "r \<le> n" by simp
    then show ?thesis using Suc.IH[of r] by (simp add: algebra_simps)
  qed
qed

text \<open>
  C3. When no member has a non-empty \<^verbatim>\<open>recentPRs\<close> list, the total pull request
  count \<open>C \<ge> 0\<close> is spread over \<open>D \<ge> 1\<close> day buckets: there are \<open>D\<close> buckets, they
  sum to \<open>C\<close>, and bucket \<open>i\<close> holds \<open>C div D\<close>, plus one exactly when \<open>i < C mod D\<close>
  (the earliest \<open>C mod D\<close> days).
\<close>

theorem fallback_distribution:
  assumes "\<forall>m \<in> set members. recent_of m = []"
    and "0 \<le> totalPRs members"
    and "0 < days"
  shows "length (getPRTrendsData midnight members days) = days
       \<and> sum_list (getPRTrendsData midnight members days) = totalPRs members
       \<and> (\<forall>i < days. getPRTrendsData midnight members days ! i =
            totalPRs members div int days
              + (if int i < totalPRs members mod int days then 1 else 0))"
proof -
  let ?C = "totalPRs members"
  let ?D = "int days"
  let ?r = "?C - (?C div ?D) * ?D"
  let ?bs = "fill_buckets days (?C div ?D) 0 ?r (replicate days 0)"
  have res: "getPRTrendsData midnight members days = ?bs"
    using foldl_count_member_none[OF assms(1)]
    by (simp add: getPRTrendsData_def Let_def)
  have r_mod: "?r = ?C mod ?D" by (simp add: minus_div_mult_eq_mod)
  have r0: "0 \<le> ?r" and rD: "?r < ?D" using assms(3) by (simp_all add: r_mod)
  have len: "length ?bs = days" by (simp add: length_fill_buckets)
  have nth: "?bs ! i = ?C div ?D + (if int i < ?C mod ?D then 1 else 0)" if "i < days" for i
    using fill_buckets_nth[of "replicate days 0" days i ?r "?C div ?D" 0] that r0
    by (simp add: r_mod)
  have "?bs = map (\<lambda>j. ?C div ?D + (if j < nat (?C mod ?D) then 1 else 0)) [0..<days]"
  proof (rule nth_equalityI)
    show "length ?bs = length (map (\<lambda>j. ?C div ?D + (if j < nat (?C mod ?D) then 1 else 0)) [0..<days])"
      using len by simp
  next
    fix i assume "i < length ?bs"
    then have "i < days" using len by simp
    moreover have "(int i < ?C mod ?D) = (i < nat (?C mod ?D))"
      using r0 r_mod by linarith
    ultimately show "?bs ! i = map (\<lambda>j. ?C div ?D + (if j < nat (?C mod ?D) then 1 else 0)) [0..<days] ! i"
      using nth by simp
  qed
  then have "sum_list ?bs = ?D * (?C div ?D) + int (nat (?C mod ?D))"
    using sum_list_step_buckets[of "nat (?C mod ?D)" days "?C div ?D"] rD r_mod by simp
  also have "\<dots> = ?C" using r0 r_mod by simp
  finally have sum: "sum_list ?bs = ?C" .
  show ?thesis using len sum nth by (simp add: res)
qed

theorem fallback_distribution_witness:
  "recent_of (member_with_pulls 4) = [] \<and> recent_of (member_with_pulls 3) = []
   \<and> totalPRs [member_with_pulls 4, member_with_pulls 3] = 7
   \<and> length (getPRTrendsData (\<lambda>k. 0) [member_with_pulls 4, member_with_pulls 3] 3) = 3
   \<and> sum_list (getPRTrendsData (\<lambda>k. 0) [member_with_pulls 4, member_with_pulls 3] 3) = 7
   \<and> getPRTrendsData (\<lambda>k. 0) [member_with_pulls 4, member_with_pulls 3] 3 ! 0 = 3
   \<and> getPRTrendsData (\<lambda>k. 0) [member_with_pulls 4, member_with_pulls 3] 3 ! 1 = 2
   \<and> getPRTrendsData (\<lambda>k. 0) [member_with_pulls 4, member_with_pulls 3] 3 ! 2 = 2"
proof -
  let ?ms = "[member_with_pulls 4, member_with_pulls 3]"
  have r: "recent_of (member_with_pulls n) = []" for n
    by (simp add: recent_of_def member_with_pulls_def plain_member_def plain_activity_def)
  have t: "totalPRs ?ms = 7"
    by (simp add: totalPRs_def pulls_of_def or0_def member_with_pulls_def plain_member_def
        plain_activity_def)
  have h1: "\<forall>m \<in> set ?ms. recent_of m = []" using r by simp
  have h2: "0 \<le> totalPRs ?ms" using t by simp
  have h3: "0 < (3::nat)" by simp
  from fallback_distribution[OF h1 h2 h3, of "\<lambda>k. 0"] show ?thesis
    using r t by simp
qed

section \<open>Analytics: rankings (getTopCommitters, getTopPRCreators)\<close>

text \<open>
  \<^verbatim>\<open>Array.prototype.sort\<close> with a comparator is a stable sort: \<open>a\<close> stays before \<open>b\<close>
  unless the comparator says \<open>cmp a b > 0\<close>. It is modelled by a stable insertion sort;
  for the comparators of this code, which order by an integer key, the stable sorted
  arrangement is unique.
\<close>

fun insert_cmp :: "('a \<Rightarrow> 'a \<Rightarrow> int) \<Rightarrow> 'a \<Rightarrow> 'a list \<Rightarrow> 'a list" where
  "insert_cmp cmp x [] = [x]"
| "insert_cmp cmp x (y # ys) = (if cmp x y \<le> 0 then x # y # ys else y # insert_cmp cmp x ys)"

definition js_sort :: "('a \<Rightarrow> 'a \<Rightarrow> int) \<Rightarrow> 'a list \<Rightarrow> 'a list" where
  "js_sort cmp xs = foldr (insert_cmp cmp) xs []"

text \<open>
  The name of a ranking entry:
  \<^verbatim>\<open>member.displayName || `${member.firstName || ""} ${member.lastName || ""}`.trim() || "Unknown"\<close>.
\<close>

definition resolve_name :: "member \<Rightarrow> string" where
  "resolve_name m =
     (if truthy_str (displayName m) then str_or_empty (displayName m)
      else (let full = trim (str_or_empty (firstName m) @ '' '' @ str_or_empty (lastName m))
            in if full \<noteq> [] then full else ''Unknown''))"

record committer =
  committer_name :: string
  committer_commits :: int
  committer_contributions :: int

definition has_commits :: "member \<Rightarrow> bool" where
  "has_commits m = (case githubActivity m of None \<Rightarrow> False | Some a \<Rightarrow> commits a \<noteq> None)"

definition committer_of :: "member \<Rightarrow> committer" where
  "committer_of m =
     \<lparr>committer_name = resolve_name m,
      committer_commits = (case githubActivity m of None \<Rightarrow> 0 | Some a \<Rightarrow> or0 (commits a)),
      committer_contributions = (case githubActivity m of None \<Rightarrow> 0 | Some a \<Rightarrow> or0 (contributions a))\<rparr>"

definition getTopCommitters :: "member list \<Rightarrow> committer list" where
  "getTopCommitters members =
     take 10 (js_sort (\<lambda>a b. committer_commits b - committer_commits a)
                (map committer_of (filter has_commits members)))"

record pr_creator =
  creator_name :: string
  creator_prs :: int
  creator_merged :: int
  creator_open :: int
  creator_closed :: int

text \<open>
  The filter of the pull request ranking is
  \<^verbatim>\<open>member.githubActivity && (pullRequests || mergedPRs || openPRs)\<close>: one of the three
  counts is truthy, that is, present and not zero.
\<close>

definition has_pr_activity :: "member \<Rightarrow> bool" where
  "has_pr_activity m =
     (case githubActivity m of
        None \<Rightarrow> False
      | Some a \<Rightarrow> truthy_num (pullRequests a) \<or> truthy_num (mergedPRs a) \<or> truthy_num (openPRs a))"

definition pr_creator_of :: "member \<Rightarrow> pr_creator" where
  "pr_creator_of m =
     \<lparr>creator_name = resolve_name m,
      creator_prs = (case githubActivity m of None \<Rightarrow> 0 | Some a \<Rightarrow> or0 (pullRequests a)),
      creator_merged = (case githubActivity m of None \<Rightarrow> 0 | Some a \<Rightarrow> or0 (mergedPRs a)),
      creator_open = (case githubActivity m of None \<Rightarrow> 0 | Some a \<Rightarrow> or0 (openPRs a)),
      creator_closed = (case githubActivity m of None \<Rightarrow> 0 | Some a \<Rightarrow> or0 (closedPRs a))\<rparr>"

definition getTopPRCreators :: "member list \<Rightarrow> pr_creator list" where
  "getTopPRCreators members =
     take 10 (js_sort (\<lambda>a b. creator_prs b - creator_prs a)
                (map pr_creator_of (filter has_pr_activity members)))"

definition has_pulls :: "member \<Rightarrow> bool" where
  "has_pulls m = (case githubActivity m of None \<Rightarrow> False | Some a \<Rightarrow> pullRequests a \<noteq> None)"

subsection \<open>The sort is a stable descending sort\<close>

definition desc_by :: "('a \<Rightarrow> int) \<Rightarrow> 'a \<Rightarrow> 'a \<Rightarrow> int" where
  "desc_by key a b = key b - key a"

lemma mset_insert_cmp: "mset (insert_cmp cmp x ys) = add_mset x (mset ys)"
  by (induction ys) simp_all

lemma mset_js_sort: "mset (js_sort cmp xs) = mset xs"
  by (induction xs) (simp_all add: js_sort_def mset_insert_cmp)

lemma set_insert_cmp: "set (insert_cmp cmp x ys) = insert x (set ys)"
  by (induction ys) auto

lemma sorted_insert_desc:
  "sorted_wrt (\<lambda>a b. key a \<ge> key b) ys \<Longrightarrow>
   sorted_wrt (\<lambda>a b. key a \<ge> key b) (insert_cmp (desc_by key) x ys)"
  by (induction ys) (auto simp: desc_by_def set_insert_cmp)

lemma sorted_js_sort: "sorted_wrt (\<lambda>a b. key a \<ge> key b) (js_sort (desc_by key) xs)"
  by (induction xs) (simp_all add: js_sort_def sorted_insert_desc)

lemma filter_insert_desc:
  "sorted_wrt (\<lambda>a b. key a \<ge> key b) ys \<Longrightarrow>
   filter (\<lambda>e. key e = v) (insert_cmp (desc_by key) x ys)
     = (if key x = v then x # filter (\<lambda>e. key e = v) ys else filter (\<lambda>e. key e = v) ys)"
proof (induction ys)
  case Nil
  then show ?case by simp
next
  case (Cons y ys)
  show ?case
  proof (cases "desc_by key x y \<le> 0")
    case True
    then show ?thesis by (simp add: desc_by_def)
  next
    case False
    then have lt: "key y > key x" by (simp add: desc_by_def)
    have "sorted_wrt (\<lambda>a b. key a \<ge> key b) ys" using Cons.prems by simp
    from Cons.IH[OF this] False lt show ?thesis by auto
  qed
qed

lemma js_sort_stable:
  "filter (\<lambda>e. key e = v) (js_sort (desc_by key) xs) = filter (\<lambda>e. key e = v) xs"
proof (induction xs)
  case Nil
  then show ?case by (simp add: js_sort_def)
next
  case (Cons x xs)
  have "js_sort (desc_by key) (x # xs) = insert_cmp (desc_by key) x (js_sort (desc_by key) xs)"
    by (simp add: js_sort_def)
  then show ?case
    using filter_insert_desc[OF sorted_js_sort, of key v x xs] Cons.IH by simp
qed

lemma take_sorted_ranking:
  fixes key :: "'a \<Rightarrow> int"
  defines "r \<equiv> \<lambda>xs. take 10 (js_sort (desc_by key) xs)"
  shows "length (r xs) = min 10 (length xs)"
    and "sorted_wrt (\<lambda>a b. key a \<ge> key b) (r xs)"
    and "\<exists>rest. mset (r xs @ rest) = mset xs \<and> sorted_wrt (\<lambda>a b. key a \<ge> key b) (r xs @ rest)"
    and "prefix (filter (\<lambda>e. key e = v) (r xs)) (filter (\<lambda>e. key e = v) xs)"
proof -
  let ?s = "js_sort (desc_by key) xs"
  have "length ?s = length xs" using mset_js_sort[of "desc_by key" xs] by (metis size_mset)
  then show "length (r xs) = min 10 (length xs)" by (simp add: r_def min.commute)
  have srt: "sorted_wrt (\<lambda>a b. key a \<ge> key b) ?s" by (rule sorted_js_sort)
  then show "sorted_wrt (\<lambda>a b. key a \<ge> key b) (r xs)"
    unfolding r_def by (rule sorted_wrt_take)
  have "mset (r xs @ drop 10 ?s) = mset xs \<and> sorted_wrt (\<lambda>a b. key a \<ge> key b) (r xs @ drop 10 ?s)"
    using srt by (simp add: r_def mset_js_sort)
  then show "\<exists>rest. mset (r xs @ rest) = mset xs \<and> sorted_wrt (\<lambda>a b. key a \<ge> key b) (r xs @ rest)"
    by blast
  have "prefix (r xs) ?s" by (simp add: r_def take_is_prefix)
  then have "prefix (filter (\<lambda>e. key e = v) (r xs)) (filter (\<lambda>e. key e = v) ?s)"
    by (rule filter_mono_prefix)
  then show "prefix (filter (\<lambda>e. key e = v) (r xs)) (filter (\<lambda>e. key e = v) xs)"
    by (simp add: js_sort_stable)
qed

lemma take_sorted_ranking_15:
  fixes key :: "'a \<Rightarrow> int"
  shows "length (take 15 (js_sort (desc_by key) xs)) = min 15 (length xs)"
    and "sorted_wrt (\<lambda>a b. key a \<ge> key b) (take 15 (js_sort (desc_by key) xs))"
    and "\<exists>rest. mset (take 15 (js_sort (desc_by key) xs) @ rest) = mset xs
           \<and> sorted_wrt (\<lambda>a b. key a \<ge> key b) (take 15 (js_sort (desc_by key) xs) @ rest)"
proof -
  let ?s = "js_sort (desc_by key) xs"
  have "length ?s = length xs" using mset_js_sort[of "desc_by key" xs] by (metis size_mset)
  then show "length (take 15 ?s) = min 15 (length xs)" by (simp add: min.commute)
  have srt: "sorted_wrt (\<lambda>a b. key a \<ge> key b) ?s" by (rule sorted_js_sort)
  then show "sorted_wrt (\<lambda>a b. key a \<ge> key b) (take 15 ?s)" by (rule sorted_wrt_take)
  have "mset (take 15 ?s @ drop 15 ?s) = mset xs
      \<and> sorted_wrt (\<lambda>a b. key a \<ge> key b) (take 15 ?s @ drop 15 ?s)"
    using srt by (simp add: mset_js_sort)
  then show "\<exists>rest. mset (take 15 ?s @ rest) = mset xs
           \<and> sorted_wrt (\<lambda>a b. key a \<ge> key b) (take 15 ?s @ rest)"
    by blast
qed

lemma committer_cmp: "(\<lambda>a b. committer_commits b - committer_commits a) = desc_by committer_commits"
  by (simp add: desc_by_def fun_eq_iff)

lemma creator_cmp: "(\<lambda>a b. creator_prs b - creator_prs a) = desc_by creator_prs"
  by (simp add: desc_by_def fun_eq_iff)

text \<open>
  C9 (amended). The commit ranking keeps the members whose \<^verbatim>\<open>commits\<close> is defined; the
  pull request ranking keeps the members one of whose \<^verbatim>\<open>pullRequests\<close>,
  \<^verbatim>\<open>mergedPRs\<close>, \<^verbatim>\<open>openPRs\<close> is present and not zero. Each ranking has at most
  10 entries, is in descending order of its value, is the front of a descending
  arrangement of all kept entries, and keeps entries of equal value in their original
  relative order. Names follow the chain display name, trimmed first and last name,
  \<^verbatim>\<open>"Unknown"\<close>.
\<close>

theorem top_rankings:
  "length (getTopCommitters members) = min 10 (length (filter has_commits members))
   \<and> sorted_wrt (\<lambda>a b. committer_commits a \<ge> committer_commits b) (getTopCommitters members)
   \<and> (\<exists>rest. mset (getTopCommitters members @ rest) = mset (map committer_of (filter has_commits members))
          \<and> sorted_wrt (\<lambda>a b. committer_commits a \<ge> committer_commits b) (getTopCommitters members @ rest))
   \<and> (\<forall>v. prefix (filter (\<lambda>e. committer_commits e = v) (getTopCommitters members))
              (filter (\<lambda>e. committer_commits e = v) (map committer_of (filter has_commits members))))
   \<and> length (getTopPRCreators members) = min 10 (length (filter has_pr_activity members))
   \<and> sorted_wrt (\<lambda>a b. creator_prs a \<ge> creator_prs b) (getTopPRCreators members)
   \<and> (\<exists>rest. mset (getTopPRCreators members @ rest) = mset (map pr_creator_of (filter has_pr_activity members))
          \<and> sorted_wrt (\<lambda>a b. creator_prs a \<ge> creator_prs b) (getTopPRCreators members @ rest))
   \<and> (\<forall>v. prefix (filter (\<lambda>e. creator_prs e = v) (getTopPRCreators members))
              (filter (\<lambda>e. creator_prs e = v) (map pr_creator_of (filter has_pr_activity members))))
   \<and> (\<forall>m. committer_name (committer_of m) = resolve_name m
          \<and> creator_name (pr_creator_of m) = resolve_name m
          \<and> resolve_name m =
              (if truthy_str (displayName m) then str_or_empty (displayName m)
               else if trim (str_or_empty (firstName m) @ '' '' @ str_or_empty (lastName m)) \<noteq> []
                    then trim (str_or_empty (firstName m) @ '' '' @ str_or_empty (lastName m))
                    else ''Unknown''))"
proof -
  let ?cs = "map committer_of (filter has_commits members)"
  let ?ps = "map pr_creator_of (filter has_pr_activity members)"
  have c: "getTopCommitters members = take 10 (js_sort (desc_by committer_commits) ?cs)"
    by (simp add: getTopCommitters_def committer_cmp)
  have p: "getTopPRCreators members = take 10 (js_sort (desc_by creator_prs) ?ps)"
    by (simp add: getTopPRCreators_def creator_cmp)
  have c1: "length (getTopCommitters members) = min 10 (length (filter has_commits members))"
    using take_sorted_ranking(1)[of committer_commits ?cs] by (simp add: c)
  have c2: "sorted_wrt (\<lambda>a b. committer_commits a \<ge> committer_commits b) (getTopCommitters members)"
    unfolding c by (rule take_sorted_ranking(2))
  have c3: "\<exists>rest. mset (getTopCommitters members @ rest) = mset ?cs
          \<and> sorted_wrt (\<lambda>a b. committer_commits a \<ge> committer_commits b) (getTopCommitters members @ rest)"
    unfolding c by (rule take_sorted_ranking(3))
  have c4: "\<forall>v. prefix (filter (\<lambda>e. committer_commits e = v) (getTopCommitters members))
              (filter (\<lambda>e. committer_commits e = v) ?cs)"
    unfolding c by (intro allI take_sorted_ranking(4))
  have p1: "length (getTopPRCreators members) = min 10 (length (filter has_pr_activity members))"
    using take_sorted_ranking(1)[of creator_prs ?ps] by (simp add: p)
  have p2: "sorted_wrt (\<lambda>a b. creator_prs a \<ge> creator_prs b) (getTopPRCreators members)"
    unfolding p by (rule take_sorted_ranking(2))
  have p3: "\<exists>rest. mset (getTopPRCreators members @ rest) = mset ?ps
          \<and> sorted_wrt (\<lambda>a b. creator_prs a \<ge> creator_prs b) (getTopPRCreators members @ rest)"
    unfolding p by (rule take_sorted_ranking(3))
  have p4: "\<forall>v. prefix (filter (\<lambda>e. creator_prs e = v) (getTopPRCreators members))
              (filter (\<lambda>e. creator_prs e = v) ?ps)"
    unfolding p by (intro allI take_sorted_ranking(4))
  have n: "\<forall>m. committer_name (committer_of m) = resolve_name m
          \<and> creator_name (pr_creator_of m) = resolve_name m
          \<and> resolve_name m =
              (if truthy_str (displayName m) then str_or_empty (displayName m)
               else if trim (str_or_empty (firstName m) @ '' '' @ str_or_empty (lastName m)) \<noteq> []
                    then trim (str_or_empty (firstName m) @ '' '' @ str_or_empty (lastName m))
                    else ''Unknown'')"
    by (simp add: committer_of_def pr_creator_of_def resolve_name_def Let_def)
  from c1 c2 c3 c4 p1 p2 p3 p4 n show ?thesis by blast
qed

text \<open>
  The pull request ranking does not keep every member with a defined \<^verbatim>\<open>pullRequests\<close>:
  a member whose count is \<open>0\<close> is dropped, and a member without the field but with two
  open pull requests is listed with the value \<open>0\<close>.
\<close>

definition member_with_open :: "int \<Rightarrow> member" where
  "member_with_open n =
     plain_member\<lparr>githubActivity := Some (plain_activity\<lparr>openPRs := Some n\<rparr>)\<rparr>"

theorem top_pr_creators_counterexample:
  "has_pulls (member_with_pulls 0) \<and> getTopPRCreators [member_with_pulls 0] = []
   \<and> \<not> has_pulls (member_with_open 2)
   \<and> map creator_prs (getTopPRCreators [member_with_open 2]) = [0]"
  by (simp add: has_pulls_def getTopPRCreators_def has_pr_activity_def truthy_num_def
      member_with_pulls_def member_with_open_def plain_member_def plain_activity_def
      js_sort_def pr_creator_of_def or0_def)

section \<open>Analytics: language distribution (getLanguageData)\<close>

text \<open>
  An object used as a dictionary (\<^verbatim>\<open>languageCounts = {}\<close>) is an association list in
  insertion order: assigning to a key that is present replaces its value in place,
  assigning to a new key appends it, and \<^verbatim>\<open>Object.entries\<close> lists the entries in
  that order. This is what JavaScript does for every key that is neither the name of a
  property inherited from \<^verbatim>\<open>Object.prototype\<close> (reading \<^verbatim>\<open>languageCounts["toString"]\<close>
  gives a function, not \<^verbatim>\<open>undefined\<close>) nor a canonical decimal numeral (such keys are
  listed first, in numeric order). \<open>plain_key\<close> holds for the keys where the association
  list is exact.
\<close>

definition object_prototype_keys :: "string list" where
  "object_prototype_keys =
     [''constructor'', ''hasOwnProperty'', ''isPrototypeOf'', ''propertyIsEnumerable'',
      ''toLocaleString'', ''toString'', ''valueOf'', ''__proto__'',
      ''__defineGetter__'', ''__defineSetter__'', ''__lookupGetter__'', ''__lookupSetter__'']"

definition is_digit :: "char \<Rightarrow> bool" where
  "is_digit c = (c \<in> set ''0123456789'')"

definition is_index_key :: "string \<Rightarrow> bool" where
  "is_index_key k = (k \<noteq> [] \<and> list_all is_digit k \<and> (k = ''0'' \<or> hd k \<noteq> CHR ''0''))"

definition plain_key :: "string \<Rightarrow> bool" where
  "plain_key k = (k \<notin> set object_prototype_keys \<and> \<not> is_index_key k)"

fun obj_set :: "(string \<times> 'v) list \<Rightarrow> string \<Rightarrow> 'v \<Rightarrow> (string \<times> 'v) list" where
  "obj_set [] k v = [(k, v)]"
| "obj_set ((k', v') # rest) k v =
     (if k' = k then (k, v) # rest else (k', v') # obj_set rest k v)"

text \<open>\<^verbatim>\<open>counts[k] = (counts[k] || 0) + n\<close>\<close>

definition add_count :: "(string \<times> int) list \<Rightarrow> string \<Rightarrow> int \<Rightarrow> (string \<times> int) list" where
  "add_count counts k n = obj_set counts k (or0 (map_of counts k) + n)"

text \<open>One entry \<^verbatim>\<open>[lang, count]\<close> of the mapping form.\<close>

definition merge_entry :: "(string \<times> int) list \<Rightarrow> string \<times> int option \<Rightarrow> (string \<times> int) list" where
  "merge_entry languageCounts e =
     (let langName = trim (fst e);
          langCount = or0 (snd e)
      in if langName \<noteq> [] \<and> langCount > 0 \<and> langName \<noteq> ''Unknown'' \<and> langName \<noteq> ''null''
         then add_count languageCounts langName langCount
         else languageCounts)"

text \<open>
  One element of the list form: a string counts once; an object with a truthy name counts
  \<^verbatim>\<open>Number(lang.count || lang.value || 1) || 1\<close>.
\<close>

fun merge_item :: "(string \<times> int) list \<Rightarrow> lang_item \<Rightarrow> (string \<times> int) list" where
  "merge_item languageCounts (LStr lang) =
     (let langName = trim lang
      in if langName \<noteq> [] \<and> langName \<noteq> ''Unknown''
         then add_count languageCounts langName 1
         else languageCounts)"
| "merge_item languageCounts (LEntry name cnt val) =
     (if truthy_str name
      then (let langName = trim (str_or_empty name);
                c = (if truthy_num cnt then or0 cnt
                     else if truthy_num val then or0 val else 1);
                langCount = (if c \<noteq> 0 then c else 1)
            in if langName \<noteq> [] \<and> langName \<noteq> ''Unknown'' \<and> langCount > 0
               then add_count languageCounts langName langCount
               else languageCounts)
      else languageCounts)"
| "merge_item languageCounts LOther = languageCounts"

definition merge_languages :: "(string \<times> int) list \<Rightarrow> languages_val \<Rightarrow> (string \<times> int) list" where
  "merge_languages languageCounts l =
     (case l of
        LangObj entries \<Rightarrow> foldl merge_entry languageCounts entries
      | LangArr items \<Rightarrow> foldl merge_item languageCounts items
      | LangOther \<Rightarrow> languageCounts)"

definition languages_of :: "member \<Rightarrow> languages_val option" where
  "languages_of m = (case githubActivity m of None \<Rightarrow> None | Some a \<Rightarrow> languages a)"

definition merge_member :: "(string \<times> int) list \<times> bool \<Rightarrow> member \<Rightarrow> (string \<times> int) list \<times> bool" where
  "merge_member acc m =
     (case languages_of m of
        None \<Rightarrow> acc
      | Some l \<Rightarrow> (merge_languages (fst acc) l, True))"

definition language_counts :: "member list \<Rightarrow> (string \<times> int) list \<times> bool" where
  "language_counts members = foldl merge_member ([], False) members"

record language_data =
  labels :: "string list"
  data :: "int list"
  isBytes :: bool

definition no_language_data :: language_data where
  "no_language_data = \<lparr>labels = [''No Language Data''], data = [1], isBytes = False\<rparr>"

text \<open>\<^verbatim>\<open>Math.max(...xs)\<close>; \<open>None\<close> is \<^verbatim>\<open>-Infinity\<close>, the value for no arguments.\<close>

definition math_max :: "int list \<Rightarrow> int option" where
  "math_max xs = (case xs of [] \<Rightarrow> None | x # rest \<Rightarrow> Some (fold max rest x))"

definition getLanguageData :: "member list \<Rightarrow> language_data" where
  "getLanguageData members =
     (let (languageCounts, hasLanguageData) = language_counts members
      in if \<not> hasLanguageData \<or> languageCounts = [] then no_language_data
         else (let sortedLanguages =
                     filter (\<lambda>e. fst e \<noteq> [] \<and> trim (fst e) \<noteq> [] \<and> trim (fst e) \<noteq> ''Unknown'')
                       (take 15 (js_sort (\<lambda>a b. snd b - snd a) languageCounts))
               in if sortedLanguages = [] then no_language_data
                  else (let maxValue = math_max (map snd sortedLanguages);
                            isBytes = (case maxValue of None \<Rightarrow> False | Some v \<Rightarrow> v > 10000)
                        in \<lparr>labels = map fst sortedLanguages,
                            data = map snd sortedLanguages,
                            isBytes = isBytes\<rparr>)))"

text \<open>The members used as examples: one mapping, one list of entries.\<close>

definition member_with_languages :: "languages_val \<Rightarrow> member" where
  "member_with_languages l =
     plain_member\<lparr>githubActivity := Some (plain_activity\<lparr>languages := Some l\<rparr>)\<rparr>"

definition mapping_only :: "member list \<Rightarrow> bool" where
  "mapping_only members =
     list_all (\<lambda>m. case languages_of m of Some (LangArr items) \<Rightarrow> False | _ \<Rightarrow> True) members"

subsection \<open>Trimming, dictionaries, and the contributions of a member\<close>

lemma last_dropWhile: "dropWhile P xs \<noteq> [] \<Longrightarrow> last (dropWhile P xs) = last xs"
  by (induction xs) auto

lemma trim_shape: "trim s = [] \<or> (\<not> is_ws (hd (trim s)) \<and> \<not> is_ws (last (trim s)))"
proof (cases "trim s = []")
  case True then show ?thesis by simp
next
  case False
  let ?d = "dropWhile is_ws s"
  let ?e = "dropWhile is_ws (rev ?d)"
  have t: "trim s = rev ?e" by (simp add: trim_def)
  with False have e: "?e \<noteq> []" by simp
  have d: "?d \<noteq> []"
  proof
    assume a: "?d = []"
    have "?e = []" unfolding a by simp
    with e show False by blast
  qed
  have "\<not> is_ws (hd ?e)" using e by (rule hd_dropWhile)
  then have l: "\<not> is_ws (last (trim s))" using e by (simp add: t last_rev)
  have "last ?e = last (rev ?d)" using e by (rule last_dropWhile)
  then have "last ?e = hd ?d" using d by (simp only: last_rev)
  moreover have "\<not> is_ws (hd ?d)" using d by (rule hd_dropWhile)
  ultimately have "\<not> is_ws (hd (trim s))" using e by (simp add: t hd_rev)
  with l show ?thesis by simp
qed

lemma dropWhile_hd_id: "xs = [] \<or> \<not> P (hd xs) \<Longrightarrow> dropWhile P xs = xs"
  by (cases xs) auto

lemma trim_idem: "trim (trim s) = trim s"
proof -
  let ?t = "trim s"
  have a: "dropWhile is_ws ?t = ?t" using trim_shape[of s] by (intro dropWhile_hd_id) auto
  have "rev ?t = [] \<or> \<not> is_ws (hd (rev ?t))"
    using trim_shape[of s] by (auto simp: hd_rev)
  then have b: "dropWhile is_ws (rev ?t) = rev ?t" by (rule dropWhile_hd_id)
  show ?thesis by (subst (1) trim_def) (simp add: a b)
qed

lemma set_obj_set: "set (obj_set counts k v) \<subseteq> insert (k, v) (set counts)"
  by (induction counts k v rule: obj_set.induct) auto

lemma keys_obj_set: "fst ` set (obj_set counts k v) = insert k (fst ` set counts)"
  by (induction counts k v rule: obj_set.induct) auto

lemma map_of_obj_set: "map_of (obj_set counts k v) = (map_of counts)(k \<mapsto> v)"
  by (induction counts k v rule: obj_set.induct) (auto simp: fun_eq_iff)

lemma distinct_obj_set: "distinct (map fst counts) \<Longrightarrow> distinct (map fst (obj_set counts k v))"
  by (induction counts k v rule: obj_set.induct) (auto simp: keys_obj_set)

definition good_counts :: "(string \<Rightarrow> bool) \<Rightarrow> (string \<times> int) list \<Rightarrow> bool" where
  "good_counts P counts = (distinct (map fst counts) \<and> (\<forall>(k, c) \<in> set counts. P k \<and> 0 < c))"

lemma good_add_count:
  assumes "good_counts P counts" "P k" "0 < n"
  shows "good_counts P (add_count counts k n)"
proof -
  have "0 \<le> or0 (map_of counts k)"
  proof (cases "map_of counts k")
    case None then show ?thesis by (simp add: or0_def)
  next
    case (Some c)
    then have "(k, c) \<in> set counts" by (rule map_of_SomeD)
    with assms(1) have "0 < c" by (auto simp: good_counts_def)
    with Some show ?thesis by (simp add: or0_def)
  qed
  with assms(3) have pos: "0 < or0 (map_of counts k) + n" by simp
  show ?thesis
    unfolding good_counts_def add_count_def
    using assms(1,2) pos set_obj_set[of counts k "or0 (map_of counts k) + n"]
      distinct_obj_set[of counts k "or0 (map_of counts k) + n"]
    by (auto simp: good_counts_def)
qed


text \<open>
  What one member contributes to the global mapping, in the words of the specification:
  the pairs of a trimmed language name and a count that pass the exclusions. An entry of
  the mapping form contributes unless its name is empty, \<^verbatim>\<open>"Unknown"\<close> or
  \<^verbatim>\<open>"null"\<close> or its count is not positive. A string of the list form contributes
  \<open>1\<close> unless it is empty or \<^verbatim>\<open>"Unknown"\<close>. An object of the list form contributes
  its \<^verbatim>\<open>count\<close>, else its \<^verbatim>\<open>value\<close>, else \<open>1\<close> (a missing or zero field is
  skipped), unless its name is empty or \<^verbatim>\<open>"Unknown"\<close> or that number is negative.
\<close>

definition contributions_of_entry :: "string \<times> int option \<Rightarrow> (string \<times> int) list" where
  "contributions_of_entry e =
     (if trim (fst e) \<notin> {[], ''Unknown'', ''null''} \<and> 0 < or0 (snd e)
      then [(trim (fst e), or0 (snd e))] else [])"

fun contributions_of_item :: "lang_item \<Rightarrow> (string \<times> int) list" where
  "contributions_of_item (LStr lang) =
     (if trim lang \<notin> {[], ''Unknown''} then [(trim lang, 1)] else [])"
| "contributions_of_item (LEntry name cnt val) =
     (case name of
        None \<Rightarrow> []
      | Some n \<Rightarrow>
          (let c = (if truthy_num cnt then or0 cnt else if truthy_num val then or0 val else 1)
           in if n \<noteq> [] \<and> trim n \<notin> {[], ''Unknown''} \<and> 0 < c then [(trim n, c)] else []))"
| "contributions_of_item LOther = []"

definition contributions_of_member :: "member \<Rightarrow> (string \<times> int) list" where
  "contributions_of_member m =
     (case languages_of m of
        Some (LangObj entries) \<Rightarrow> concat (map contributions_of_entry entries)
      | Some (LangArr items) \<Rightarrow> concat (map contributions_of_item items)
      | _ \<Rightarrow> [])"

definition all_contributions :: "member list \<Rightarrow> (string \<times> int) list" where
  "all_contributions members = concat (map contributions_of_member members)"

definition apply_contribs :: "(string \<times> int) list \<Rightarrow> (string \<times> int) list \<Rightarrow> (string \<times> int) list" where
  "apply_contribs counts cs = foldl (\<lambda>c e. add_count c (fst e) (snd e)) counts cs"

lemma apply_contribs_append:
  "apply_contribs counts (xs @ ys) = apply_contribs (apply_contribs counts xs) ys"
  by (simp add: apply_contribs_def)

lemma merge_entry_contribs: "merge_entry counts e = apply_contribs counts (contributions_of_entry e)"
  by (auto simp: merge_entry_def contributions_of_entry_def apply_contribs_def Let_def)

lemma merge_item_contribs: "merge_item counts i = apply_contribs counts (contributions_of_item i)"
  by (cases i) (auto simp: apply_contribs_def Let_def truthy_str_def str_or_empty_def truthy_num_def or0_def
      split: option.splits)

lemma foldl_merge_entry:
  "foldl merge_entry counts es = apply_contribs counts (concat (map contributions_of_entry es))"
  by (induction es arbitrary: counts) (simp_all add: apply_contribs_append merge_entry_contribs, simp add: apply_contribs_def)

lemma foldl_merge_item:
  "foldl merge_item counts is = apply_contribs counts (concat (map contributions_of_item is))"
  by (induction "is" arbitrary: counts) (simp_all add: apply_contribs_append merge_item_contribs, simp add: apply_contribs_def)

lemma merge_member_contribs:
  "fst (merge_member acc m) = apply_contribs (fst acc) (contributions_of_member m)"
  by (auto simp: merge_member_def contributions_of_member_def merge_languages_def
      foldl_merge_entry foldl_merge_item apply_contribs_def split: option.splits languages_val.splits)

lemma foldl_merge_member:
  "fst (foldl merge_member acc members) = apply_contribs (fst acc) (all_contributions members)"
proof (induction members arbitrary: acc)
  case Nil
  then show ?case by (simp add: all_contributions_def apply_contribs_def)
next
  case (Cons m members)
  then show ?case
    by (simp add: all_contributions_def apply_contribs_append merge_member_contribs)
qed

lemma language_counts_contribs:
  "fst (language_counts members) = apply_contribs [] (all_contributions members)"
  by (simp add: language_counts_def foldl_merge_member)

lemma map_of_apply_contribs:
  "map_of (apply_contribs counts cs) k =
     (if k \<in> fst ` set cs \<or> map_of counts k \<noteq> None
      then Some (or0 (map_of counts k) + sum_list (map snd (filter (\<lambda>e. fst e = k) cs)))
      else None)"
proof (induction cs arbitrary: counts)
  case Nil
  then show ?case by (auto simp: apply_contribs_def or0_def)
next
  case (Cons e cs)
  have "apply_contribs counts (e # cs) = apply_contribs (add_count counts (fst e) (snd e)) cs"
    by (simp add: apply_contribs_def)
  then show ?case
    by (simp add: Cons.IH add_count_def map_of_obj_set or0_def)
qed


definition valid_name :: "string \<Rightarrow> bool" where
  "valid_name k = (k \<noteq> [] \<and> k \<noteq> ''Unknown'' \<and> trim k = k)"

lemma contributions_of_entry_valid:
  "(k, n) \<in> set (contributions_of_entry e) \<Longrightarrow> valid_name k \<and> k \<noteq> ''null'' \<and> 0 < n"
  by (auto simp: contributions_of_entry_def valid_name_def trim_idem split: if_splits)

lemma contributions_of_item_valid:
  "(k, n) \<in> set (contributions_of_item i) \<Longrightarrow> valid_name k \<and> 0 < n"
  by (cases i) (auto simp: valid_name_def trim_idem Let_def split: if_splits option.splits)

lemma contributions_of_member_cases:
  "contributions_of_member m =
     (case languages_of m of
        None \<Rightarrow> []
      | Some l \<Rightarrow> (case l of LangObj entries \<Rightarrow> concat (map contributions_of_entry entries)
                   | LangArr items \<Rightarrow> concat (map contributions_of_item items)
                   | LangOther \<Rightarrow> []))"
  by (simp add: contributions_of_member_def split: option.splits languages_val.splits)

lemma contributions_of_member_valid:
  assumes "(k, n) \<in> set (contributions_of_member m)"
  shows "valid_name k \<and> 0 < n"
proof (cases "languages_of m")
  case None
  with assms show ?thesis by (simp add: contributions_of_member_cases)
next
  case (Some l)
  show ?thesis
  proof (cases l)
    case (LangObj entries)
    with Some assms obtain e where "(k, n) \<in> set (contributions_of_entry e)"
      by (auto simp: contributions_of_member_cases)
    then show ?thesis using contributions_of_entry_valid by blast
  next
    case (LangArr items)
    with Some assms obtain i where "(k, n) \<in> set (contributions_of_item i)"
      by (auto simp: contributions_of_member_cases)
    then show ?thesis using contributions_of_item_valid by blast
  next
    case LangOther
    with Some assms show ?thesis by (simp add: contributions_of_member_cases)
  qed
qed

lemma contributions_of_member_not_null:
  assumes "(k, n) \<in> set (contributions_of_member m)"
    and "case languages_of m of Some (LangArr items) \<Rightarrow> False | _ \<Rightarrow> True"
  shows "k \<noteq> ''null''"
proof (cases "languages_of m")
  case None
  with assms show ?thesis by (simp add: contributions_of_member_cases)
next
  case (Some l)
  show ?thesis
  proof (cases l)
    case (LangObj entries)
    with Some assms obtain e where "(k, n) \<in> set (contributions_of_entry e)"
      by (auto simp: contributions_of_member_cases)
    then show ?thesis using contributions_of_entry_valid by blast
  next
    case (LangArr items)
    with Some assms show ?thesis by simp
  next
    case LangOther
    with Some assms show ?thesis by (simp add: contributions_of_member_cases)
  qed
qed

lemma all_contributions_valid:
  "(k, n) \<in> set (all_contributions members) \<Longrightarrow> valid_name k \<and> 0 < n"
  by (auto simp: all_contributions_def dest: contributions_of_member_valid)

lemma all_contributions_not_null:
  "mapping_only members \<Longrightarrow> (k, n) \<in> set (all_contributions members) \<Longrightarrow> k \<noteq> ''null''"
  by (auto simp: all_contributions_def mapping_only_def list_all_iff
      dest: contributions_of_member_not_null)

lemma good_apply_contribs:
  "good_counts P counts \<Longrightarrow> \<forall>(k, n) \<in> set cs. P k \<and> 0 < n \<Longrightarrow>
   good_counts P (apply_contribs counts cs)"
proof (induction cs arbitrary: counts)
  case Nil
  then show ?case by (simp add: apply_contribs_def)
next
  case (Cons e cs)
  have "good_counts P (add_count counts (fst e) (snd e))"
    using Cons.prems by (intro good_add_count) auto
  from Cons.IH[OF this] Cons.prems(2) show ?case by (simp add: apply_contribs_def)
qed

lemma keys_apply_contribs:
  "fst ` set (apply_contribs counts cs) = fst ` set counts \<union> fst ` set cs"
proof (induction cs arbitrary: counts)
  case Nil
  then show ?case by (simp add: apply_contribs_def)
next
  case (Cons e cs)
  have "apply_contribs counts (e # cs) = apply_contribs (add_count counts (fst e) (snd e)) cs"
    by (simp add: apply_contribs_def)
  then show ?case by (simp add: Cons.IH add_count_def keys_obj_set)
qed

lemma snd_foldl_merge_member_True:
  "snd acc \<Longrightarrow> snd (foldl merge_member acc members)"
  by (induction members arbitrary: acc) (simp_all add: merge_member_def split: option.splits)

lemma foldl_merge_member_flag:
  "snd (foldl merge_member acc members) \<or> fst (foldl merge_member acc members) = fst acc"
proof (induction members arbitrary: acc)
  case Nil
  then show ?case by simp
next
  case (Cons m members)
  show ?case
  proof (cases "languages_of m")
    case None
    then have "merge_member acc m = acc" by (simp add: merge_member_def)
    then show ?thesis using Cons.IH[of acc] by simp
  next
    case (Some l)
    then have "snd (merge_member acc m)" by (simp add: merge_member_def)
    then show ?thesis using snd_foldl_merge_member_True[of "merge_member acc m" members] by simp
  qed
qed

lemma no_flag_no_counts: "\<not> snd (language_counts members) \<Longrightarrow> fst (language_counts members) = []"
  using foldl_merge_member_flag[of "([], False)" members] by (simp add: language_counts_def)

lemma fold_max_gt: "(t < fold max xs (x::int)) = (t < x \<or> (\<exists>c \<in> set xs. t < c))"
  by (induction xs arbitrary: x) auto

lemma math_max_gt:
  "xs \<noteq> [] \<Longrightarrow> (case math_max xs of None \<Rightarrow> False | Some v \<Rightarrow> t < v) = (\<exists>c \<in> set xs. t < c)"
  by (cases xs) (auto simp: math_max_def fold_max_gt)

lemma snd_cmp: "(\<lambda>a b. snd b - snd a) = desc_by (snd :: string \<times> int \<Rightarrow> int)"
  by (simp add: desc_by_def fun_eq_iff)

definition top_languages :: "member list \<Rightarrow> (string \<times> int) list" where
  "top_languages members = take 15 (js_sort (desc_by snd) (fst (language_counts members)))"

lemma set_js_sort: "set (js_sort cmp xs) = set xs"
  using mset_js_sort[of cmp xs] by (metis set_mset_mset)

lemma language_counts_good: "good_counts valid_name (fst (language_counts members))"
  unfolding language_counts_contribs
  by (rule good_apply_contribs) (auto simp: good_counts_def dest: all_contributions_valid)

lemma getLanguageData_eq:
  "getLanguageData members =
     (if fst (language_counts members) = [] then no_language_data
      else \<lparr>labels = map fst (top_languages members),
            data = map snd (top_languages members),
            isBytes = (\<exists>c \<in> set (map snd (top_languages members)). 10000 < c)\<rparr>)"
proof (cases "fst (language_counts members) = []")
  case True
  then show ?thesis
    by (simp add: getLanguageData_def case_prod_unfold)
next
  case False
  let ?top = "top_languages members"
  have flag: "snd (language_counts members)" using False no_flag_no_counts by blast
  have sub: "set ?top \<subseteq> set (fst (language_counts members))"
    unfolding top_languages_def using set_take_subset[of 15] set_js_sort by metis
  have "fst e \<noteq> [] \<and> trim (fst e) \<noteq> [] \<and> trim (fst e) \<noteq> ''Unknown''" if "e \<in> set ?top" for e
  proof -
    from that sub have "(fst e, snd e) \<in> set (fst (language_counts members))" by auto
    with language_counts_good[of members] have "valid_name (fst e)"
      unfolding good_counts_def by blast
    then show ?thesis by (simp add: valid_name_def)
  qed
  then have "\<forall>e \<in> set ?top. fst e \<noteq> [] \<and> trim (fst e) \<noteq> [] \<and> trim (fst e) \<noteq> ''Unknown''"
    by blast
  then have filt: "filter (\<lambda>e. fst e \<noteq> [] \<and> trim (fst e) \<noteq> [] \<and> trim (fst e) \<noteq> ''Unknown'') ?top = ?top"
    by (simp add: filter_id_conv)
  have "length (js_sort (desc_by snd) (fst (language_counts members))) = length (fst (language_counts members))"
    using mset_js_sort by (metis size_mset)
  then have ne: "?top \<noteq> []" using False by (auto simp: top_languages_def)
  then have mx: "(case math_max (map snd ?top) of None \<Rightarrow> False | Some v \<Rightarrow> 10000 < v)
      = (\<exists>c \<in> set (map snd ?top). 10000 < c)"
    by (intro math_max_gt) simp
  show ?thesis
    using False flag ne filt mx
    by (simp add: getLanguageData_def case_prod_unfold snd_cmp Let_def top_languages_def[symmetric])
qed

lemma trim_examples:
  "trim ''JS'' = ''JS''" "trim ''Unknown'' = ''Unknown''" "trim ''Go'' = ''Go''" "trim ''null'' = ''null''"
  by (simp_all add: trim_def is_ws_def)

lemma language_counts_example:
  "language_counts
     [member_with_languages (LangObj [(''JS'', Some 500), (''Unknown'', Some 10), (''Go'', Some 0)])]
   = ([(''JS'', 500)], True)"
  by (simp add: language_counts_def merge_member_def languages_of_def
        member_with_languages_def plain_member_def plain_activity_def merge_languages_def
        merge_entry_def trim_examples or0_def add_count_def)

text \<open>
  C6 (amended). For language names on which the dictionary model is exact, the global
  mapping holds, for each name, the sum of the members' contributions to it; its names
  are distinct, never empty and never \<^verbatim>\<open>"Unknown"\<close>, its counts are positive, and when
  every member uses the mapping form no name is \<^verbatim>\<open>"null"\<close>. The result lists the first
  15 entries of the mapping sorted by descending count (all entries, when there are fewer),
  and \<open>isBytes\<close> holds exactly when one of the listed counts exceeds 10000. The mapping
  \<^verbatim>\<open>{JS: 500, Unknown: 10, Go: 0}\<close> gives \<^verbatim>\<open>{JS: 500}\<close>.
\<close>

theorem language_distribution:
  assumes "list_all plain_key (map fst (fst (language_counts members)))"
  shows "(\<forall>k. map_of (fst (language_counts members)) k =
            (if k \<in> fst ` set (all_contributions members)
             then Some (sum_list (map snd (filter (\<lambda>e. fst e = k) (all_contributions members))))
             else None))
       \<and> distinct (map fst (fst (language_counts members)))
       \<and> (\<forall>(k, c) \<in> set (fst (language_counts members)). k \<noteq> [] \<and> k \<noteq> ''Unknown'' \<and> 0 < c)
       \<and> (mapping_only members \<longrightarrow> ''null'' \<notin> fst ` set (fst (language_counts members)))
       \<and> getLanguageData members =
            (if fst (language_counts members) = [] then no_language_data
             else \<lparr>labels = map fst (top_languages members),
                   data = map snd (top_languages members),
                   isBytes = (\<exists>c \<in> set (map snd (top_languages members)). 10000 < c)\<rparr>)
       \<and> length (top_languages members) = min 15 (length (fst (language_counts members)))
       \<and> sorted_wrt (\<lambda>a b. snd a \<ge> snd b) (top_languages members)
       \<and> (\<exists>rest. mset (top_languages members @ rest) = mset (fst (language_counts members))
              \<and> sorted_wrt (\<lambda>a b. snd a \<ge> snd b) (top_languages members @ rest))
       \<and> getLanguageData
            [member_with_languages (LangObj [(''JS'', Some 500), (''Unknown'', Some 10), (''Go'', Some 0)])]
          = \<lparr>labels = [''JS''], data = [500], isBytes = False\<rparr>"
proof -
  let ?cs = "fst (language_counts members)"
  have good: "good_counts valid_name ?cs" by (rule language_counts_good)
  have a: "\<forall>k. map_of ?cs k =
            (if k \<in> fst ` set (all_contributions members)
             then Some (sum_list (map snd (filter (\<lambda>e. fst e = k) (all_contributions members))))
             else None)"
    by (simp add: language_counts_contribs map_of_apply_contribs or0_def)
  have b: "distinct (map fst ?cs)" using good by (simp add: good_counts_def)
  have c: "\<forall>(k, c) \<in> set ?cs. k \<noteq> [] \<and> k \<noteq> ''Unknown'' \<and> 0 < c"
    using good by (auto simp: good_counts_def valid_name_def)
  have d: "mapping_only members \<longrightarrow> ''null'' \<notin> fst ` set ?cs"
  proof
    assume m: "mapping_only members"
    have "fst ` set ?cs = fst ` set (all_contributions members)"
      by (simp add: language_counts_contribs keys_apply_contribs)
    then show "''null'' \<notin> fst ` set ?cs"
      using all_contributions_not_null[OF m] by force
  qed
  have e: "length (top_languages members) = min 15 (length ?cs)"
    unfolding top_languages_def using take_sorted_ranking_15(1)[of snd ?cs] .
  have f: "sorted_wrt (\<lambda>a b. snd a \<ge> snd b) (top_languages members)"
    unfolding top_languages_def by (rule take_sorted_ranking_15(2))
  have g: "\<exists>rest. mset (top_languages members @ rest) = mset ?cs
              \<and> sorted_wrt (\<lambda>a b. snd a \<ge> snd b) (top_languages members @ rest)"
    unfolding top_languages_def by (rule take_sorted_ranking_15(3))
  have h: "getLanguageData
            [member_with_languages (LangObj [(''JS'', Some 500), (''Unknown'', Some 10), (''Go'', Some 0)])]
          = \<lparr>labels = [''JS''], data = [500], isBytes = False\<rparr>"
    by (simp add: getLanguageData_def language_counts_example trim_examples js_sort_def math_max_def)
  show ?thesis
    by (intro conjI a b c d e f g h getLanguageData_eq)
qed

lemma language_counts_list_example:
  "language_counts [member_with_languages (LangArr [LStr ''JS'', LEntry (Some ''Go'') (Some 3) None])]
   = ([(''JS'', 1), (''Go'', 3)], True)"
  by (simp add: language_counts_def merge_member_def languages_of_def
        member_with_languages_def plain_member_def plain_activity_def merge_languages_def
        trim_examples or0_def add_count_def truthy_str_def truthy_num_def str_or_empty_def)

theorem language_distribution_witness:
  "list_all plain_key
     (map fst (fst (language_counts
        [member_with_languages (LangArr [LStr ''JS'', LEntry (Some ''Go'') (Some 3) None])])))
   \<and> map_of (fst (language_counts
        [member_with_languages (LangArr [LStr ''JS'', LEntry (Some ''Go'') (Some 3) None])])) ''Go''
       = Some 3
   \<and> getLanguageData [member_with_languages (LangArr [LStr ''JS'', LEntry (Some ''Go'') (Some 3) None])]
       = \<lparr>labels = [''Go'', ''JS''], data = [3, 1], isBytes = False\<rparr>"
proof -
  let ?ms = "[member_with_languages (LangArr [LStr ''JS'', LEntry (Some ''Go'') (Some 3) None])]"
  have hyp: "list_all plain_key (map fst (fst (language_counts ?ms)))"
    by (simp add: language_counts_list_example plain_key_def object_prototype_keys_def
        is_index_key_def is_digit_def)
  have top: "top_languages ?ms = [(''Go'', 3), (''JS'', 1)]"
    by (simp add: top_languages_def language_counts_list_example js_sort_def desc_by_def)
  from language_distribution[OF hyp]
  have "getLanguageData ?ms =
            (if fst (language_counts ?ms) = [] then no_language_data
             else \<lparr>labels = map fst (top_languages ?ms),
                   data = map snd (top_languages ?ms),
                   isBytes = (\<exists>c \<in> set (map snd (top_languages ?ms)). 10000 < c)\<rparr>)"
    by blast
  then show ?thesis using hyp by (simp add: top language_counts_list_example)
qed

text \<open>
  An object of the list form whose \<^verbatim>\<open>count\<close> is \<open>0\<close> is not excluded: the count falls
  back to \<open>1\<close>.
\<close>

theorem language_distribution_counterexample:
  "getLanguageData [member_with_languages (LangArr [LEntry (Some ''Go'') (Some 0) None])]
     = \<lparr>labels = [''Go''], data = [1], isBytes = False\<rparr>"
  by (simp add: getLanguageData_def language_counts_def merge_member_def languages_of_def
        member_with_languages_def plain_member_def plain_activity_def merge_languages_def
        trim_examples or0_def add_count_def truthy_str_def truthy_num_def str_or_empty_def
        js_sort_def math_max_def)

section \<open>GitHub API client: the HTTP wrapper (handleRateLimit, githubApiRequest)\<close>

text \<open>
  A number that may be \<^verbatim>\<open>NaN\<close>. \<^verbatim>\<open>parseInt(s, 10)\<close> skips leading white space, reads an
  optional sign and the longest run of decimal digits, and gives \<^verbatim>\<open>NaN\<close> when there is
  no digit. Integers are exact here; JavaScript rounds those beyond \<open>2^53\<close>.
\<close>

datatype jsnum = NaN | Num int

definition digit_val :: "char \<Rightarrow> int" where
  "digit_val c = int (of_char c) - 48"

definition parseInt :: "string \<Rightarrow> jsnum" where
  "parseInt s =
     (let t = dropWhile is_ws s;
          neg = (t \<noteq> [] \<and> hd t = CHR ''-'');
          u = (if t \<noteq> [] \<and> (hd t = CHR ''-'' \<or> hd t = CHR ''+'') then tl t else t);
          ds = takeWhile is_digit u
      in if ds = [] then NaN
         else Num ((if neg then - 1 else 1) * foldl (\<lambda>a c. 10 * a + digit_val c) 0 ds))"

definition scale :: "jsnum \<Rightarrow> int \<Rightarrow> jsnum" where
  "scale x k = (case x of NaN \<Rightarrow> NaN | Num n \<Rightarrow> Num (n * k))"

text \<open>
  The body of a response, as \<^verbatim>\<open>response.json()\<close> delivers it to the function that asked:
  the user object, the repository array, the language map of a repository, or the commit
  array. \<open>Unreadable\<close> is a body that is not JSON: \<^verbatim>\<open>response.json()\<close> rejects.
  \<open>NullJson\<close> is the JSON text \<^verbatim>\<open>null\<close>: reading a property of it is a \<^verbatim>\<open>TypeError\<close>.
  A field of a JSON object is absent (\<open>Undefined\<close>), \<^verbatim>\<open>null\<close> or a value.
  The server is taken to answer an endpoint with a body of that endpoint's shape, with
  \<^verbatim>\<open>null\<close> or with something unreadable; a body of another endpoint's shape is given the
  behaviour of \<^verbatim>\<open>null\<close>.
\<close>

datatype 'a jsopt = Undefined | Null | Val 'a

record user_data =
  data_login :: "string jsopt"
  data_name :: "string jsopt"
  data_avatar_url :: "string jsopt"
  data_html_url :: "string jsopt"
  data_public_repos :: "int jsopt"
  data_followers :: "int jsopt"
  data_following :: "int jsopt"
  data_bio :: "string jsopt"
  data_location :: "string jsopt"
  data_blog :: "string jsopt"
  data_company :: "string jsopt"

record repo_data =
  repo_id :: "int jsopt"
  repo_name :: "string jsopt"
  repo_full_name :: "string jsopt"
  repo_description :: "string jsopt"
  repo_html_url :: "string jsopt"
  repo_language :: "string jsopt"
  repo_stargazers_count :: "int jsopt"
  repo_forks_count :: "int jsopt"
  repo_open_issues_count :: "int jsopt"
  repo_private :: "bool jsopt"
  repo_created_at :: "string jsopt"
  repo_updated_at :: "string jsopt"
  repo_pushed_at :: "string jsopt"
  repo_default_branch :: "string jsopt"

text \<open>
  Of a commit the code reads \<^verbatim>\<open>commit.commit.message\<close> and \<^verbatim>\<open>commit.commit.author\<close>;
  \<open>commit_detail\<close> is \<open>None\<close> when one of these reads fails with a \<^verbatim>\<open>TypeError\<close>
  (no \<^verbatim>\<open>commit\<close> object, no message string, no author object). \<open>detail_date\<close> is
  the time \<^verbatim>\<open>new Date(date)\<close> denotes, \<open>None\<close> for an invalid date.
\<close>

record commit_detail =
  detail_message :: string
  detail_author :: "string jsopt"
  detail_date :: "int option"

record commit_data =
  commit_sha :: "string jsopt"
  commit_detail :: "commit_detail option"
  commit_html_url :: "string jsopt"

datatype body =
    Unreadable
  | NullJson
  | UserJson user_data
  | ReposJson "repo_data list"
  | LanguagesJson "(string \<times> int) list"
  | CommitsJson "commit_data list"

record response =
  status :: nat
  rl_remaining :: "string option"
  rl_reset :: "string option"
  link :: "string option"
  body :: body

definition ok :: "response \<Rightarrow> bool" where
  "ok r = (200 \<le> status r \<and> status r \<le> 299)"

datatype fetch_result = NetworkError | Response response

datatype exn = FetchFailed | JsonError | TypeError | ApiError nat

datatype log = LogInfo | LogWarn | LogError

text \<open>
  The environment: the token substituted at build time; the server, which answers the
  \<open>k\<close>-th request of the page to a URL, sent with or without the \<^verbatim>\<open>Authorization\<close>
  header, with a response or not at all (\<^verbatim>\<open>fetch\<close> rejects); and the clock, \<open>date_now k\<close>
  being what \<^verbatim>\<open>Date.now()\<close> returns once \<open>k\<close> requests have been answered.
\<close>

record env =
  GITHUB_TOKEN :: string
  server :: "nat \<Rightarrow> string \<Rightarrow> bool \<Rightarrow> fetch_result"
  date_now :: "nat \<Rightarrow> int"

text \<open>
  The per-handle cache \<^verbatim>\<open>githubUserCache = {}\<close> is a JavaScript object. Reading a key
  that is not an own property continues along the prototype chain, which starts with
  \<^verbatim>\<open>Object.prototype\<close>; assigning to \<^verbatim>\<open>__proto__\<close> replaces the prototype (through the
  setter inherited from \<^verbatim>\<open>Object.prototype\<close>) instead of creating a property.
\<close>

record userinfo =
  info_username :: "string jsopt"
  info_name :: "string jsopt"
  info_avatar_url :: "string jsopt"
  info_html_url :: "string jsopt"
  info_public_repos :: "int jsopt"
  info_followers :: "int jsopt"
  info_following :: "int jsopt"
  info_bio :: string
  info_location :: string
  info_blog :: string
  info_company :: string

datatype foreign = ObjectPrototype | Builtin string | FieldOf userinfo string

datatype cached = CNull | CInfo userinfo | CForeign foreign

datatype proto = ObjectProto | NullProto | InfoProto userinfo

record cache =
  own :: "string \<rightharpoonup> userinfo option"
  proto :: proto

definition empty_cache :: cache where
  "empty_cache = \<lparr>own = Map.empty, proto = ObjectProto\<rparr>"

definition field_value :: "userinfo \<Rightarrow> string \<Rightarrow> 'a jsopt \<Rightarrow> cached option" where
  "field_value ui k v =
     (case v of Undefined \<Rightarrow> None | Null \<Rightarrow> Some CNull | Val x \<Rightarrow> Some (CForeign (FieldOf ui k)))"

definition info_get :: "userinfo \<Rightarrow> string \<Rightarrow> cached option" where
  "info_get ui k =
     (if k = ''username'' then field_value ui k (info_username ui)
      else if k = ''name'' then field_value ui k (info_name ui)
      else if k = ''avatar_url'' then field_value ui k (info_avatar_url ui)
      else if k = ''html_url'' then field_value ui k (info_html_url ui)
      else if k = ''public_repos'' then field_value ui k (info_public_repos ui)
      else if k = ''followers'' then field_value ui k (info_followers ui)
      else if k = ''following'' then field_value ui k (info_following ui)
      else if k \<in> {''bio'', ''location'', ''blog'', ''company''} then Some (CForeign (FieldOf ui k))
      else None)"

definition object_prototype_get :: "cached \<Rightarrow> string \<Rightarrow> cached option" where
  "object_prototype_get prototype_of_receiver k =
     (if k = ''__proto__'' then Some prototype_of_receiver
      else if k \<in> set object_prototype_keys then Some (CForeign (Builtin k))
      else None)"

text \<open>\<^verbatim>\<open>githubUserCache[k]\<close>; \<open>None\<close> is \<^verbatim>\<open>undefined\<close>.\<close>

definition cache_get :: "cache \<Rightarrow> string \<Rightarrow> cached option" where
  "cache_get c k =
     (case own c k of
        Some None \<Rightarrow> Some CNull
      | Some (Some ui) \<Rightarrow> Some (CInfo ui)
      | None \<Rightarrow>
          (case proto c of
             NullProto \<Rightarrow> None
           | ObjectProto \<Rightarrow> object_prototype_get (CForeign ObjectPrototype) k
           | InfoProto ui \<Rightarrow>
               (case info_get ui k of
                  Some v \<Rightarrow> Some v
                | None \<Rightarrow> object_prototype_get (CInfo ui) k)))"

text \<open>\<^verbatim>\<open>githubUserCache[k] = v\<close>, where \<open>v\<close> is \<^verbatim>\<open>null\<close> (\<open>None\<close>) or a profile.\<close>

definition cache_put :: "cache \<Rightarrow> string \<Rightarrow> userinfo option \<Rightarrow> cache" where
  "cache_put c k v =
     (if k = ''__proto__'' \<and> own c k = None \<and> proto c \<noteq> NullProto
      then c\<lparr>proto := (case v of None \<Rightarrow> NullProto | Some ui \<Rightarrow> InfoProto ui)\<rparr>
      else c\<lparr>own := (own c)(k \<mapsto> v)\<rparr>)"

text \<open>
  The state of the module and what it has done so far: the requests issued (URL, and whether
  the \<^verbatim>\<open>Authorization\<close> header was sent), the completed \<^verbatim>\<open>setTimeout\<close> waits in
  milliseconds, the console, and the module variables.
\<close>

record api_state =
  fetches :: "(string \<times> bool) list"
  sleeps :: "int list"
  console :: "log list"
  rateLimitReset :: "jsnum option"
  rateLimitRemaining :: "jsnum option"
  githubUserCache :: cache
  tokenWarningShown :: bool

definition initial_state :: api_state where
  "initial_state = \<lparr>fetches = [], sleeps = [], console = [], rateLimitReset = None,
     rateLimitRemaining = None, githubUserCache = empty_cache, tokenWarningShown = False\<rparr>"

definition clearGitHubCache :: "api_state \<Rightarrow> api_state" where
  "clearGitHubCache st = st\<lparr>githubUserCache := empty_cache\<rparr>"

definition say :: "log \<Rightarrow> api_state \<Rightarrow> api_state" where
  "say l st = st\<lparr>console := console st @ [l]\<rparr>"

definition sleep :: "int \<Rightarrow> api_state \<Rightarrow> api_state" where
  "sleep ms st = st\<lparr>sleeps := sleeps st @ [ms]\<rparr>"

definition hasToken :: "env \<Rightarrow> bool" where
  "hasToken e = (GITHUB_TOKEN e \<noteq> [] \<and> GITHUB_TOKEN e \<noteq> ''VITE_GITHUB_TOKEN''
                 \<and> trim (GITHUB_TOKEN e) \<noteq> [])"

definition do_fetch :: "env \<Rightarrow> string \<Rightarrow> api_state \<Rightarrow> fetch_result \<times> api_state" where
  "do_fetch e url st =
     (server e (length (fetches st)) url (hasToken e),
      st\<lparr>fetches := fetches st @ [(url, hasToken e)]\<rparr>)"

definition truthy_jsnum :: "jsnum option \<Rightarrow> bool" where
  "truthy_jsnum v = (case v of Some (Num n) \<Rightarrow> n \<noteq> 0 | _ \<Rightarrow> False)"

definition num_or0 :: "jsnum option \<Rightarrow> int" where
  "num_or0 v = (case v of Some (Num n) \<Rightarrow> n | _ \<Rightarrow> 0)"

definition handleRateLimit :: "env \<Rightarrow> response \<Rightarrow> api_state \<Rightarrow> api_state" where
  "handleRateLimit e r st =
     (let st1 = (case rl_remaining r of
                   None \<Rightarrow> st
                 | Some remaining \<Rightarrow> st\<lparr>rateLimitRemaining := Some (parseInt remaining)\<rparr>);
          st2 = (case rl_reset r of
                   None \<Rightarrow> st1
                 | Some reset \<Rightarrow> st1\<lparr>rateLimitReset := Some (scale (parseInt reset) 1000)\<rparr>)
      in if status r = 429 \<or> rateLimitRemaining st2 = Some (Num 0)
         then (let waitTime =
                     (if truthy_jsnum (rateLimitReset st2)
                      then max 0 (num_or0 (rateLimitReset st2) - date_now e (length (fetches st2)) + 1000)
                      else 60000)
               in sleep waitTime (say LogWarn st2))
         else st2)"

function attempts :: "env \<Rightarrow> string \<Rightarrow> nat \<Rightarrow> nat \<Rightarrow> api_state \<Rightarrow> (exn + response) \<times> api_state" where
  "attempts e url maxRetries attempt st =
     (if attempt < maxRetries
      then (case do_fetch e url st of
              (NetworkError, st1) \<Rightarrow> (Inl FetchFailed, st1)
            | (Response r, st1) \<Rightarrow>
                if status r = 429
                then (let st2 = handleRateLimit e r st1
                      in if attempt < maxRetries - 1
                         then attempts e url maxRetries (attempt + 1) st2
                         else (Inr r, st2))
                else if status r = 403
                then (if rl_remaining r = Some ''0''
                      then (let st2 = handleRateLimit e r st1
                            in if attempt < maxRetries - 1
                               then attempts e url maxRetries (attempt + 1) st2
                               else (Inr r, say LogWarn st2))
                      else (Inr r, say LogWarn st1))
                else (Inr r, st1))
      else (case do_fetch e url st of
              (NetworkError, st1) \<Rightarrow> (Inl FetchFailed, st1)
            | (Response r, st1) \<Rightarrow> (Inr r, st1)))"
  by pat_completeness auto
termination
  by (relation "measure (\<lambda>(e, url, maxRetries, attempt, st). maxRetries - attempt)") auto

definition githubApiRequest :: "env \<Rightarrow> string \<Rightarrow> nat \<Rightarrow> api_state \<Rightarrow> (exn + response) \<times> api_state" where
  "githubApiRequest e url maxRetries st =
     (let st0 = (if hasToken e then st
                 else if \<not> tokenWarningShown st
                      then (say LogWarn st)\<lparr>tokenWarningShown := True\<rparr>
                      else st)
      in attempts e url maxRetries 0 st0)"

subsection \<open>Retry policy\<close>

text \<open>
  A response is a throttling signal when its status is 429, or 403 with the header
  \<^verbatim>\<open>X-RateLimit-Remaining: 0\<close>. The reset time the module knows after a response is the one
  of its \<^verbatim>\<open>X-RateLimit-Reset\<close> header (seconds, kept in milliseconds), else the one it knew
  before. The wait is the time from now until one second after the reset, never negative,
  and 60 seconds when no reset time is known (or it is \<^verbatim>\<open>NaN\<close> or \<open>0\<close>).
\<close>

definition throttled :: "response \<Rightarrow> bool" where
  "throttled r = (status r = 429 \<or> (status r = 403 \<and> rl_remaining r = Some ''0''))"

definition known_reset :: "response \<Rightarrow> jsnum option \<Rightarrow> jsnum option" where
  "known_reset r previous =
     (case rl_reset r of None \<Rightarrow> previous | Some s \<Rightarrow> Some (scale (parseInt s) 1000))"

definition wait_ms :: "jsnum option \<Rightarrow> int \<Rightarrow> int" where
  "wait_ms reset now =
     (case reset of
        Some (Num reset_ms) \<Rightarrow> if reset_ms = 0 then 60000 else max 0 (reset_ms - now + 1000)
      | _ \<Rightarrow> 60000)"

declare attempts.simps [simp del]

lemma parseInt_zero: "parseInt ''0'' = Num 0"
  by (simp add: parseInt_def is_ws_def is_digit_def digit_val_def)

lemma handleRateLimit_throttled:
  assumes "throttled r"
  shows "sleeps (handleRateLimit e r st) =
           sleeps st @ [wait_ms (known_reset r (rateLimitReset st)) (date_now e (length (fetches st)))]"
    and "fetches (handleRateLimit e r st) = fetches st"
    and "rateLimitReset (handleRateLimit e r st) = known_reset r (rateLimitReset st)"
  using assms
  by (auto simp: handleRateLimit_def throttled_def known_reset_def wait_ms_def Let_def sleep_def say_def
      parseInt_zero truthy_jsnum_def num_or0_def split: option.splits jsnum.splits)


definition sent :: "string \<Rightarrow> env \<Rightarrow> api_state \<Rightarrow> api_state" where
  "sent url e st = st\<lparr>fetches := fetches st @ [(url, hasToken e)]\<rparr>"

lemma attempts_other:
  assumes "attempt < m" and "server e (length (fetches st)) url (hasToken e) = Response r"
    and "\<not> throttled r"
  shows "fst (attempts e url m attempt st) = Inr r"
    and "fetches (snd (attempts e url m attempt st)) = fetches st @ [(url, hasToken e)]"
    and "sleeps (snd (attempts e url m attempt st)) = sleeps st"
  using assms
  by (subst attempts.simps, simp add: do_fetch_def throttled_def say_def)+

lemma attempts_retry:
  assumes "attempt + 1 < m" and "server e (length (fetches st)) url (hasToken e) = Response r"
    and "throttled r"
  shows "attempts e url m attempt st = attempts e url m (attempt + 1) (handleRateLimit e r (sent url e st))"
  using assms
  by (subst attempts.simps) (auto simp: do_fetch_def throttled_def sent_def Let_def)

lemma attempts_last:
  assumes "attempt + 1 = m" and "server e (length (fetches st)) url (hasToken e) = Response r"
    and "throttled r"
  shows "fst (attempts e url m attempt st) = Inr r"
    and "fetches (snd (attempts e url m attempt st)) = fetches st @ [(url, hasToken e)]"
    and "sleeps (snd (attempts e url m attempt st)) =
           sleeps st @ [wait_ms (known_reset r (rateLimitReset st)) (date_now e (length (fetches st) + 1))]"
proof -
  let ?st1 = "sent url e st"
  have res: "attempts e url m attempt st =
      (Inr r, if status r = 429 then handleRateLimit e r ?st1 else say LogWarn (handleRateLimit e r ?st1))"
    using assms by (subst attempts.simps) (auto simp: do_fetch_def throttled_def sent_def Let_def)
  have s: "sleeps (handleRateLimit e r ?st1) =
      sleeps st @ [wait_ms (known_reset r (rateLimitReset st)) (date_now e (length (fetches st) + 1))]"
    using handleRateLimit_throttled(1)[OF assms(3), of e ?st1] by (simp add: sent_def)
  have f: "fetches (handleRateLimit e r ?st1) = fetches st @ [(url, hasToken e)]"
    using handleRateLimit_throttled(2)[OF assms(3), of e ?st1] by (simp add: sent_def)
  show "fst (attempts e url m attempt st) = Inr r" by (simp add: res)
  show "fetches (snd (attempts e url m attempt st)) = fetches st @ [(url, hasToken e)]"
    using f by (simp add: res say_def)
  show "sleeps (snd (attempts e url m attempt st)) =
           sleeps st @ [wait_ms (known_reset r (rateLimitReset st)) (date_now e (length (fetches st) + 1))]"
    using s by (simp add: res say_def)
qed

lemma handleRateLimit_fetches: "fetches (handleRateLimit e r st) = fetches st"
  by (simp add: handleRateLimit_def Let_def sleep_def say_def split: option.splits)

lemma attempts_failed:
  assumes "attempt < m" and "server e (length (fetches st)) url (hasToken e) = NetworkError"
  shows "attempts e url m attempt st = (Inl FetchFailed, sent url e st)"
  using assms by (subst attempts.simps) (simp add: do_fetch_def sent_def)

lemma attempts_fetch_bound:
  "attempt < m \<Longrightarrow>
   length (fetches (snd (attempts e url m attempt st))) \<le> length (fetches st) + (m - attempt)"
proof (induction k \<equiv> "m - attempt" arbitrary: attempt st)
  case 0
  then show ?case by simp
next
  case (Suc k)
  show ?case
  proof (cases "server e (length (fetches st)) url (hasToken e)")
    case NetworkError
    from attempts_failed[OF Suc.prems NetworkError] Suc.prems show ?thesis
      by (simp add: sent_def)
  next
    case (Response r)
    show ?thesis
    proof (cases "throttled r")
      case False
      from attempts_other(2)[OF Suc.prems Response False] Suc.prems show ?thesis by simp
    next
      case True
      show ?thesis
      proof (cases "attempt + 1 = m")
        case last: True
        from attempts_last(2)[OF last Response True] Suc.prems show ?thesis by simp
      next
        case False
        with Suc.prems have lt: "attempt + 1 < m" by simp
        let ?st2 = "handleRateLimit e r (sent url e st)"
        have k: "k = m - (attempt + 1)" using Suc.hyps(2) by simp
        have "length (fetches (snd (attempts e url m (attempt + 1) ?st2)))
            \<le> length (fetches ?st2) + (m - (attempt + 1))"
          using Suc.hyps(1)[OF k lt] .
        moreover have "length (fetches ?st2) = length (fetches st) + 1"
          by (simp add: handleRateLimit_fetches sent_def)
        ultimately show ?thesis
          using attempts_retry[OF lt Response True] lt by simp
      qed
    qed
  qed
qed

lemma githubApiRequest_attempts:
  "\<exists>st0. githubApiRequest e url m st = attempts e url m 0 st0
     \<and> fetches st0 = fetches st \<and> sleeps st0 = sleeps st
     \<and> rateLimitReset st0 = rateLimitReset st \<and> githubUserCache st0 = githubUserCache st"
  by (auto simp: githubApiRequest_def Let_def say_def)


lemma request_not_throttled:
  assumes "server e (length (fetches st)) url (hasToken e) = Response r" and "\<not> throttled r"
  shows "fst (githubApiRequest e url 3 st) = Inr r"
proof -
  obtain st0 where "githubApiRequest e url 3 st = attempts e url 3 0 st0"
    and "fetches st0 = fetches st"
    using githubApiRequest_attempts by blast
  then show ?thesis using attempts_other(1)[of 0 3 e st0 url r] assms by simp
qed

text \<open>
  C1. \<^verbatim>\<open>githubApiRequest\<close> with its 3 attempts: an answer that is not a throttling signal
  (a 403 without the zero header included) is returned at once, after one request and no
  wait; after a throttling signal it waits for the computed time and asks again; the
  third answer is returned whatever it is, a throttling signal after one more wait; and no
  call issues more than 3 requests.
\<close>

theorem rate_limit_retry:
  "(server e (length (fetches st)) url (hasToken e) = Response r0 \<and> \<not> throttled r0 \<longrightarrow>
      fst (githubApiRequest e url 3 st) = Inr r0
      \<and> fetches (snd (githubApiRequest e url 3 st)) = fetches st @ [(url, hasToken e)]
      \<and> sleeps (snd (githubApiRequest e url 3 st)) = sleeps st)
   \<and> (server e (length (fetches st)) url (hasToken e) = Response r0 \<and> throttled r0
      \<and> server e (length (fetches st) + 1) url (hasToken e) = Response r1 \<and> \<not> throttled r1 \<longrightarrow>
      fst (githubApiRequest e url 3 st) = Inr r1
      \<and> fetches (snd (githubApiRequest e url 3 st)) = fetches st @ [(url, hasToken e), (url, hasToken e)]
      \<and> sleeps (snd (githubApiRequest e url 3 st)) =
          sleeps st @ [wait_ms (known_reset r0 (rateLimitReset st)) (date_now e (length (fetches st) + 1))])
   \<and> (server e (length (fetches st)) url (hasToken e) = Response r0 \<and> throttled r0
      \<and> server e (length (fetches st) + 1) url (hasToken e) = Response r1 \<and> throttled r1
      \<and> server e (length (fetches st) + 2) url (hasToken e) = Response r2 \<longrightarrow>
      fst (githubApiRequest e url 3 st) = Inr r2
      \<and> fetches (snd (githubApiRequest e url 3 st)) =
          fetches st @ [(url, hasToken e), (url, hasToken e), (url, hasToken e)]
      \<and> sleeps (snd (githubApiRequest e url 3 st)) =
          sleeps st
          @ [wait_ms (known_reset r0 (rateLimitReset st)) (date_now e (length (fetches st) + 1)),
             wait_ms (known_reset r1 (known_reset r0 (rateLimitReset st)))
               (date_now e (length (fetches st) + 2))]
          @ (if throttled r2
             then [wait_ms (known_reset r2 (known_reset r1 (known_reset r0 (rateLimitReset st))))
                     (date_now e (length (fetches st) + 3))]
             else []))
   \<and> length (fetches (snd (githubApiRequest e url 3 st))) \<le> length (fetches st) + 3"
proof -
  obtain st0 where req: "githubApiRequest e url 3 st = attempts e url 3 0 st0"
    and f0: "fetches st0 = fetches st" and s0: "sleeps st0 = sleeps st"
    and r0: "rateLimitReset st0 = rateLimitReset st"
    using githubApiRequest_attempts by blast
  let ?n = "length (fetches st)"
  let ?a = "hasToken e"
  let ?w0 = "wait_ms (known_reset r0 (rateLimitReset st)) (date_now e (?n + 1))"
  let ?w1 = "wait_ms (known_reset r1 (known_reset r0 (rateLimitReset st))) (date_now e (?n + 2))"
  let ?w2 = "wait_ms (known_reset r2 (known_reset r1 (known_reset r0 (rateLimitReset st)))) (date_now e (?n + 3))"
  have p1: "fst (githubApiRequest e url 3 st) = Inr r0
      \<and> fetches (snd (githubApiRequest e url 3 st)) = fetches st @ [(url, ?a)]
      \<and> sleeps (snd (githubApiRequest e url 3 st)) = sleeps st"
    if "server e ?n url ?a = Response r0" "\<not> throttled r0"
    using attempts_other[of 0 3 e st0 url r0] that by (simp add: req f0 s0)
  \<comment> \<open>the state after the first, throttled answer\<close>
  let ?st2 = "handleRateLimit e r0 (sent url e st0)"
  have st2: "fetches ?st2 = fetches st @ [(url, ?a)]" "sleeps ?st2 = sleeps st @ [?w0]"
    "rateLimitReset ?st2 = known_reset r0 (rateLimitReset st)" if "throttled r0"
    using handleRateLimit_throttled[OF that, of e "sent url e st0"]
    by (simp_all add: sent_def f0 s0 r0)
  have step1: "attempts e url 3 0 st0 = attempts e url 3 1 ?st2"
    if "server e ?n url ?a = Response r0" "throttled r0"
    using attempts_retry[of 0 3 e st0 url r0] that by (simp add: f0)
  have p2: "fst (githubApiRequest e url 3 st) = Inr r1
      \<and> fetches (snd (githubApiRequest e url 3 st)) = fetches st @ [(url, ?a), (url, ?a)]
      \<and> sleeps (snd (githubApiRequest e url 3 st)) = sleeps st @ [?w0]"
    if a: "server e ?n url ?a = Response r0" "throttled r0"
      and b: "server e (?n + 1) url ?a = Response r1" "\<not> throttled r1"
    using attempts_other[of 1 3 e ?st2 url r1] b st2[OF a(2)] step1[OF a]
    by (simp add: req)
  \<comment> \<open>the state after the second throttled answer\<close>
  let ?st4 = "handleRateLimit e r1 (sent url e ?st2)"
  have st4: "fetches ?st4 = fetches st @ [(url, ?a), (url, ?a)]" "sleeps ?st4 = sleeps st @ [?w0, ?w1]"
    "rateLimitReset ?st4 = known_reset r1 (known_reset r0 (rateLimitReset st))"
    if "throttled r0" "throttled r1"
    using handleRateLimit_throttled[OF that(2), of e "sent url e ?st2"] st2[OF that(1)]
    by (simp_all add: sent_def)
  have step2: "attempts e url 3 1 ?st2 = attempts e url 3 2 ?st4"
    if "throttled r0" "server e (?n + 1) url ?a = Response r1" "throttled r1"
    using attempts_retry[of 1 3 e ?st2 url r1] that st2[OF that(1)] by (simp add: numeral_2_eq_2)
  have p3: "fst (githubApiRequest e url 3 st) = Inr r2
      \<and> fetches (snd (githubApiRequest e url 3 st)) = fetches st @ [(url, ?a), (url, ?a), (url, ?a)]
      \<and> sleeps (snd (githubApiRequest e url 3 st)) =
          sleeps st @ [?w0, ?w1] @ (if throttled r2 then [?w2] else [])"
    if a: "server e ?n url ?a = Response r0" "throttled r0"
      and b: "server e (?n + 1) url ?a = Response r1" "throttled r1"
      and c: "server e (?n + 2) url ?a = Response r2"
  proof -
    have eq: "githubApiRequest e url 3 st = attempts e url 3 2 ?st4"
      using step1[OF a] step2[OF a(2) b] by (simp add: req)
    have srv: "server e (length (fetches ?st4)) url ?a = Response r2"
      using c st4(1)[OF a(2) b(2)] by simp
    show ?thesis
    proof (cases "throttled r2")
      case True
      have n3: "length (fetches st) + 3 = Suc (Suc (Suc (length (fetches st))))" by simp
      show ?thesis
        unfolding n3 eq
        using attempts_last[of 2 3 e ?st4 url r2] srv True st4[OF a(2) b(2)] by simp
    next
      case False
      from attempts_other[of 2 3 e ?st4 url r2] srv False st4[OF a(2) b(2)]
      show ?thesis by (simp add: eq)
    qed
  qed
  have p4: "length (fetches (snd (githubApiRequest e url 3 st))) \<le> ?n + 3"
    using attempts_fetch_bound[of 0 3 e url st0] by (simp add: req f0)
  from p1 p2 p3 p4 show ?thesis by blast
qed


definition plain_response :: "nat \<Rightarrow> response" where
  "plain_response s = \<lparr>status = s, rl_remaining = None, rl_reset = None, link = None, body = Unreadable\<rparr>"

definition env_with :: "(nat \<Rightarrow> fetch_result) \<Rightarrow> env" where
  "env_with answers =
     \<lparr>GITHUB_TOKEN = ''ghp_example'', server = (\<lambda>k url authorised. answers k), date_now = (\<lambda>k. 1000000)\<rparr>"

lemma parseInt_1005: "parseInt ''1005'' = Num 1005"
  by (simp add: parseInt_def is_ws_def is_digit_def digit_val_def)

theorem rate_limit_retry_witness:
  "fst (githubApiRequest
         (env_with (\<lambda>k. if k = 0 then Response ((plain_response 429)\<lparr>rl_reset := Some ''1005''\<rparr>)
                         else Response (plain_response 200)))
         ''https://api.github.com/users/octocat'' 3 initial_state) = Inr (plain_response 200)
   \<and> sleeps (snd (githubApiRequest
         (env_with (\<lambda>k. if k = 0 then Response ((plain_response 429)\<lparr>rl_reset := Some ''1005''\<rparr>)
                         else Response (plain_response 200)))
         ''https://api.github.com/users/octocat'' 3 initial_state)) = [6000]
   \<and> fst (githubApiRequest
         (env_with (\<lambda>k. Response ((plain_response 403)\<lparr>rl_remaining := Some ''0''\<rparr>)))
         ''https://api.github.com/users/octocat'' 3 initial_state)
       = Inr ((plain_response 403)\<lparr>rl_remaining := Some ''0''\<rparr>)
   \<and> sleeps (snd (githubApiRequest
         (env_with (\<lambda>k. Response ((plain_response 403)\<lparr>rl_remaining := Some ''0''\<rparr>)))
         ''https://api.github.com/users/octocat'' 3 initial_state)) = [60000, 60000, 60000]
   \<and> length (fetches (snd (githubApiRequest
         (env_with (\<lambda>k. Response ((plain_response 403)\<lparr>rl_remaining := Some ''0''\<rparr>)))
         ''https://api.github.com/users/octocat'' 3 initial_state))) = 3
   \<and> fst (githubApiRequest (env_with (\<lambda>k. Response (plain_response 403)))
         ''https://api.github.com/users/octocat'' 3 initial_state) = Inr (plain_response 403)
   \<and> length (fetches (snd (githubApiRequest (env_with (\<lambda>k. Response (plain_response 403)))
         ''https://api.github.com/users/octocat'' 3 initial_state))) = 1"
proof -
  let ?url = "''https://api.github.com/users/octocat''"
  let ?r429 = "(plain_response 429)\<lparr>rl_reset := Some ''1005''\<rparr>"
  let ?r403 = "(plain_response 403)\<lparr>rl_remaining := Some ''0''\<rparr>"
  let ?e1 = "env_with (\<lambda>k. if k = 0 then Response ?r429 else Response (plain_response 200))"
  let ?e2 = "env_with (\<lambda>k. Response ?r403)"
  let ?e3 = "env_with (\<lambda>k. Response (plain_response 403))"
  have t: "throttled ?r429" "throttled ?r403" "\<not> throttled (plain_response 200)"
    "\<not> throttled (plain_response 403)"
    by (simp_all add: throttled_def plain_response_def)
  have w: "wait_ms (known_reset ?r429 None) 1000000 = 6000"
    "wait_ms (known_reset ?r403 None) 1000000 = 60000"
    by (simp_all add: wait_ms_def known_reset_def plain_response_def parseInt_1005 scale_def)
  have a: "fst (githubApiRequest ?e1 ?url 3 initial_state) = Inr (plain_response 200)
      \<and> sleeps (snd (githubApiRequest ?e1 ?url 3 initial_state)) = [6000]"
    using rate_limit_retry[of ?e1 initial_state ?url ?r429 "plain_response 200"] t w
    by (simp add: env_with_def initial_state_def)
  have b: "fst (githubApiRequest ?e2 ?url 3 initial_state) = Inr ?r403
      \<and> sleeps (snd (githubApiRequest ?e2 ?url 3 initial_state)) = [60000, 60000, 60000]
      \<and> length (fetches (snd (githubApiRequest ?e2 ?url 3 initial_state))) = 3"
    using rate_limit_retry[of ?e2 initial_state ?url ?r403 ?r403 ?r403] t w
    by (simp add: env_with_def initial_state_def known_reset_def plain_response_def)
  have c: "fst (githubApiRequest ?e3 ?url 3 initial_state) = Inr (plain_response 403)
      \<and> length (fetches (snd (githubApiRequest ?e3 ?url 3 initial_state))) = 1"
    using rate_limit_retry[of ?e3 initial_state ?url "plain_response 403"] t
    by (simp add: env_with_def initial_state_def)
  from a b c show ?thesis by blast
qed

section \<open>GitHub API client: the user profile (fetchGitHubUserInfo)\<close>

definition user_url :: "string \<Rightarrow> string" where
  "user_url githubUsername = ''https://api.github.com/users/'' @ githubUsername"

definition or_empty :: "string jsopt \<Rightarrow> string" where
  "or_empty v = (case v of Val s \<Rightarrow> s | _ \<Rightarrow> [])"

definition json_user :: "body \<Rightarrow> exn + user_data" where
  "json_user b =
     (case b of Unreadable \<Rightarrow> Inl JsonError | UserJson userData \<Rightarrow> Inr userData | _ \<Rightarrow> Inl TypeError)"

definition userinfo_of :: "user_data \<Rightarrow> userinfo" where
  "userinfo_of userData =
     \<lparr>info_username = data_login userData,
      info_name = data_name userData,
      info_avatar_url = data_avatar_url userData,
      info_html_url = data_html_url userData,
      info_public_repos = data_public_repos userData,
      info_followers = data_followers userData,
      info_following = data_following userData,
      info_bio = or_empty (data_bio userData),
      info_location = or_empty (data_location userData),
      info_blog = or_empty (data_blog userData),
      info_company = or_empty (data_company userData)\<rparr>"

text \<open>
  \<^verbatim>\<open>try { ... } catch (error) { console.error(...); return dflt; }\<close>: the result of a
  function is \<open>Inl\<close> an exception that leaves it, or \<open>Inr\<close> the value it returns.
\<close>

definition try_catch :: "'a \<Rightarrow> (exn + 'a) \<times> api_state \<Rightarrow> (exn + 'a) \<times> api_state" where
  "try_catch dflt res =
     (case res of
        (Inl error, st) \<Rightarrow> (Inr dflt, say LogError st)
      | (Inr v, st) \<Rightarrow> (Inr v, st))"

definition user_info_request :: "env \<Rightarrow> string \<Rightarrow> api_state \<Rightarrow> (exn + cached) \<times> api_state" where
  "user_info_request e githubUsername st =
     (case githubApiRequest e (user_url githubUsername) 3 st of
        (Inl error, st1) \<Rightarrow> (Inl error, st1)
      | (Inr r, st1) \<Rightarrow>
          if ok r
          then (case json_user (body r) of
                  Inl error \<Rightarrow> (Inl error, st1)
                | Inr userData \<Rightarrow>
                    (Inr (CInfo (userinfo_of userData)),
                     st1\<lparr>githubUserCache :=
                           cache_put (githubUserCache st1) githubUsername (Some (userinfo_of userData))\<rparr>))
          else if status r = 404
          then (Inr CNull,
                (say LogWarn st1)\<lparr>githubUserCache :=
                                    cache_put (githubUserCache st1) githubUsername None\<rparr>)
          else if status r = 403 \<or> status r = 429
          then (Inr CNull, say LogWarn st1)
          else (Inr CNull, say LogError st1))"

definition fetchGitHubUserInfo :: "env \<Rightarrow> string \<Rightarrow> bool \<Rightarrow> api_state \<Rightarrow> (exn + cached) \<times> api_state" where
  "fetchGitHubUserInfo e githubUsername useCache st =
     (case (if useCache then cache_get (githubUserCache st) githubUsername else None) of
        Some v \<Rightarrow> (Inr v, st)
      | None \<Rightarrow> try_catch CNull (user_info_request e githubUsername st))"

subsection \<open>What a request leaves alone, and the cache\<close>

lemma handleRateLimit_cache: "githubUserCache (handleRateLimit e r st) = githubUserCache st"
  by (simp add: handleRateLimit_def Let_def sleep_def say_def split: option.splits)

lemma attempts_cache:
  "attempt < m \<Longrightarrow> githubUserCache (snd (attempts e url m attempt st)) = githubUserCache st"
proof (induction k \<equiv> "m - attempt" arbitrary: attempt st)
  case 0
  then show ?case by simp
next
  case (Suc k)
  show ?case
  proof (cases "server e (length (fetches st)) url (hasToken e)")
    case NetworkError
    from attempts_failed[OF Suc.prems NetworkError] show ?thesis by (simp add: sent_def)
  next
    case (Response r)
    show ?thesis
    proof (cases "throttled r \<and> attempt + 1 < m")
      case True
      then have lt: "attempt + 1 < m" and t: "throttled r" by simp_all
      have k: "k = m - (attempt + 1)" using Suc.hyps(2) by simp
      from Suc.hyps(1)[OF k lt] attempts_retry[OF lt Response t] show ?thesis
        by (simp add: handleRateLimit_cache sent_def)
    next
      case False
      then show ?thesis
        using Suc.prems Response
        by (subst attempts.simps)
           (auto simp: do_fetch_def throttled_def Let_def say_def handleRateLimit_cache)
    qed
  qed
qed

lemma githubApiRequest_cache:
  "githubUserCache (snd (githubApiRequest e url 3 st)) = githubUserCache st"
proof -
  obtain st0 where "githubApiRequest e url 3 st = attempts e url 3 0 st0"
    and "githubUserCache st0 = githubUserCache st"
    using githubApiRequest_attempts by blast
  then show ?thesis using attempts_cache[of 0 3 e url st0] by simp
qed

lemma attempts_fetches_grow:
  "attempt < m \<Longrightarrow> length (fetches st) < length (fetches (snd (attempts e url m attempt st)))"
proof (induction k \<equiv> "m - attempt" arbitrary: attempt st)
  case 0
  then show ?case by simp
next
  case (Suc k)
  show ?case
  proof (cases "server e (length (fetches st)) url (hasToken e)")
    case NetworkError
    from attempts_failed[OF Suc.prems NetworkError] show ?thesis by (simp add: sent_def)
  next
    case (Response r)
    show ?thesis
    proof (cases "throttled r")
      case False
      from attempts_other(2)[OF Suc.prems Response False] show ?thesis by simp
    next
      case True
      show ?thesis
      proof (cases "attempt + 1 = m")
        case last: True
        from attempts_last(2)[OF last Response True] show ?thesis by simp
      next
        case False
        with Suc.prems have lt: "attempt + 1 < m" by simp
        have k: "k = m - (attempt + 1)" using Suc.hyps(2) by simp
        from Suc.hyps(1)[OF k lt, of "handleRateLimit e r (sent url e st)"]
          attempts_retry[OF lt Response True]
        show ?thesis by (simp add: handleRateLimit_fetches sent_def)
      qed
    qed
  qed
qed

lemma githubApiRequest_fetches_grow:
  "length (fetches st) < length (fetches (snd (githubApiRequest e url 3 st)))"
proof -
  obtain st0 where "githubApiRequest e url 3 st = attempts e url 3 0 st0"
    and "fetches st0 = fetches st"
    using githubApiRequest_attempts by blast
  then show ?thesis using attempts_fetches_grow[of 0 3 st0 e url] by simp
qed

lemma cache_get_put:
  assumes "cache_get c k = None"
  shows "cache_get (cache_put c k v) k = Some (case v of None \<Rightarrow> CNull | Some ui \<Rightarrow> CInfo ui)"
proof -
  have own: "own c k = None" using assms by (auto simp: cache_get_def split: option.splits)
  have "k \<noteq> ''__proto__'' \<or> proto c = NullProto"
    using assms own
    by (auto simp: cache_get_def object_prototype_get_def info_get_def split: proto.splits option.splits)
  then have "cache_put c k v = c\<lparr>own := (own c)(k \<mapsto> v)\<rparr>"
    by (auto simp: cache_put_def)
  then show ?thesis by (simp add: cache_get_def split: option.splits)
qed


lemma fetchGitHubUserInfo_miss_fetches:
  assumes "cache_get (githubUserCache st) u = None"
  shows "fetches (snd (fetchGitHubUserInfo e u True st))
       = fetches (snd (githubApiRequest e (user_url u) 3 st))"
proof (cases "githubApiRequest e (user_url u) 3 st")
  case (Pair res st1)
  then show ?thesis
    using assms
    by (cases res)
       (auto simp: fetchGitHubUserInfo_def user_info_request_def try_catch_def say_def
          split: sum.splits)
qed

lemma profile_fetch_caches:
  assumes "cache_get (githubUserCache st) u = None"
    and "githubApiRequest e (user_url u) 3 st = (Inr r, st1)"
    and "ok r" and "json_user (body r) = Inr userData"
  shows "fst (fetchGitHubUserInfo e u True st) = Inr (CInfo (userinfo_of userData))"
    and "fetchGitHubUserInfo e' u True (snd (fetchGitHubUserInfo e u True st))
       = (Inr (CInfo (userinfo_of userData)), snd (fetchGitHubUserInfo e u True st))"
proof -
  have c1: "githubUserCache st1 = githubUserCache st"
    using githubApiRequest_cache[of e "user_url u" st] assms(2) by simp
  have res: "fetchGitHubUserInfo e u True st =
      (Inr (CInfo (userinfo_of userData)),
       st1\<lparr>githubUserCache := cache_put (githubUserCache st) u (Some (userinfo_of userData))\<rparr>)"
    using assms by (simp add: fetchGitHubUserInfo_def user_info_request_def try_catch_def c1)
  show "fst (fetchGitHubUserInfo e u True st) = Inr (CInfo (userinfo_of userData))"
    by (simp add: res)
  show "fetchGitHubUserInfo e' u True (snd (fetchGitHubUserInfo e u True st))
       = (Inr (CInfo (userinfo_of userData)), snd (fetchGitHubUserInfo e u True st))"
    unfolding res
    using cache_get_put[OF assms(1), of "Some (userinfo_of userData)"]
    by (simp add: fetchGitHubUserInfo_def)
qed

text \<open>
  C10. When the request of a profile fetch is answered with status 403 or 429, the fetch
  returns \<^verbatim>\<open>null\<close> and leaves the cache as it was, so the next call for the same handle
  issues a request again. When it is answered with 404, the fetch returns \<^verbatim>\<open>null\<close> and
  stores it under the handle, and the next call returns \<^verbatim>\<open>null\<close> without a request.
\<close>

theorem throttled_profile_not_cached:
  assumes "cache_get (githubUserCache st) u = None"
    and "githubApiRequest e (user_url u) 3 st = (Inr r, st1)"
  shows "(status r = 403 \<or> status r = 429 \<longrightarrow>
            fst (fetchGitHubUserInfo e u True st) = Inr CNull
          \<and> githubUserCache (snd (fetchGitHubUserInfo e u True st)) = githubUserCache st
          \<and> (\<forall>e'. length (fetches (snd (fetchGitHubUserInfo e u True st)))
                   < length (fetches (snd (fetchGitHubUserInfo e' u True
                                             (snd (fetchGitHubUserInfo e u True st)))))))
       \<and> (status r = 404 \<longrightarrow>
            fst (fetchGitHubUserInfo e u True st) = Inr CNull
          \<and> cache_get (githubUserCache (snd (fetchGitHubUserInfo e u True st))) u = Some CNull
          \<and> (\<forall>e'. fetchGitHubUserInfo e' u True (snd (fetchGitHubUserInfo e u True st))
                   = (Inr CNull, snd (fetchGitHubUserInfo e u True st))))"
proof (intro conjI impI)
  have c1: "githubUserCache st1 = githubUserCache st"
    using githubApiRequest_cache[of e "user_url u" st] assms(2) by simp
  {
    assume t: "status r = 403 \<or> status r = 429"
    then have nok: "\<not> ok r" "status r \<noteq> 404" by (auto simp: ok_def)
    have res: "fetchGitHubUserInfo e u True st = (Inr CNull, say LogWarn st1)"
      using assms t nok by (simp add: fetchGitHubUserInfo_def user_info_request_def try_catch_def)
    show "fst (fetchGitHubUserInfo e u True st) = Inr CNull" by (simp add: res)
    show "githubUserCache (snd (fetchGitHubUserInfo e u True st)) = githubUserCache st"
      by (simp add: res say_def c1)
    have miss: "cache_get (githubUserCache (say LogWarn st1)) u = None"
      using assms(1) by (simp add: say_def c1)
    show "\<forall>e'. length (fetches (snd (fetchGitHubUserInfo e u True st)))
                   < length (fetches (snd (fetchGitHubUserInfo e' u True
                                             (snd (fetchGitHubUserInfo e u True st)))))"
      using fetchGitHubUserInfo_miss_fetches[OF miss] githubApiRequest_fetches_grow
      by (simp add: res)
  }
  {
    assume t: "status r = 404"
    then have nok: "\<not> ok r" by (simp add: ok_def)
    have res: "fetchGitHubUserInfo e u True st =
        (Inr CNull, (say LogWarn st1)\<lparr>githubUserCache := cache_put (githubUserCache st) u None\<rparr>)"
      using assms t nok
      by (simp add: fetchGitHubUserInfo_def user_info_request_def try_catch_def c1)
    show "fst (fetchGitHubUserInfo e u True st) = Inr CNull" by (simp add: res)
    have hit: "cache_get (cache_put (githubUserCache st) u None) u = Some CNull"
      using cache_get_put[OF assms(1), of None] by simp
    show "cache_get (githubUserCache (snd (fetchGitHubUserInfo e u True st))) u = Some CNull"
      using hit by (simp add: res)
    show "\<forall>e'. fetchGitHubUserInfo e' u True (snd (fetchGitHubUserInfo e u True st))
                   = (Inr CNull, snd (fetchGitHubUserInfo e u True st))"
      unfolding res using hit by (simp add: fetchGitHubUserInfo_def)
  }
qed


theorem throttled_profile_not_cached_witness:
  "cache_get (githubUserCache initial_state) ''octocat'' = None
   \<and> fst (fetchGitHubUserInfo (env_with (\<lambda>k. Response (plain_response 403))) ''octocat'' True initial_state)
       = Inr CNull
   \<and> githubUserCache (snd (fetchGitHubUserInfo (env_with (\<lambda>k. Response (plain_response 403)))
                              ''octocat'' True initial_state)) = empty_cache
   \<and> length (fetches (snd (fetchGitHubUserInfo (env_with (\<lambda>k. Response (plain_response 403)))
                              ''octocat'' True initial_state)))
       < length (fetches (snd (fetchGitHubUserInfo (env_with (\<lambda>k. Response (plain_response 403)))
                                ''octocat'' True
                                (snd (fetchGitHubUserInfo (env_with (\<lambda>k. Response (plain_response 403)))
                                        ''octocat'' True initial_state)))))
   \<and> fst (fetchGitHubUserInfo (env_with (\<lambda>k. Response (plain_response 404))) ''octocat'' True initial_state)
       = Inr CNull
   \<and> fetchGitHubUserInfo (env_with (\<lambda>k. Response (plain_response 404))) ''octocat'' True
         (snd (fetchGitHubUserInfo (env_with (\<lambda>k. Response (plain_response 404)))
                 ''octocat'' True initial_state))
       = (Inr CNull,
          snd (fetchGitHubUserInfo (env_with (\<lambda>k. Response (plain_response 404)))
                 ''octocat'' True initial_state))"
proof -
  let ?e3 = "env_with (\<lambda>k. Response (plain_response 403))"
  let ?e4 = "env_with (\<lambda>k. Response (plain_response 404))"
  have miss: "cache_get (githubUserCache initial_state) ''octocat'' = None"
    by (simp add: initial_state_def empty_cache_def cache_get_def object_prototype_get_def
        object_prototype_keys_def)
  have nt: "\<not> throttled (plain_response 403)" "\<not> throttled (plain_response 404)"
    by (simp_all add: throttled_def plain_response_def)
  have "fst (githubApiRequest ?e3 (user_url ''octocat'') 3 initial_state) = Inr (plain_response 403)"
    using request_not_throttled[of ?e3 initial_state "user_url ''octocat''" "plain_response 403"] nt
    by (simp add: env_with_def)
  then obtain s3 where r3: "githubApiRequest ?e3 (user_url ''octocat'') 3 initial_state
      = (Inr (plain_response 403), s3)"
    by (cases "githubApiRequest ?e3 (user_url ''octocat'') 3 initial_state") simp
  have "fst (githubApiRequest ?e4 (user_url ''octocat'') 3 initial_state) = Inr (plain_response 404)"
    using request_not_throttled[of ?e4 initial_state "user_url ''octocat''" "plain_response 404"] nt
    by (simp add: env_with_def)
  then obtain s4 where r4: "githubApiRequest ?e4 (user_url ''octocat'') 3 initial_state
      = (Inr (plain_response 404), s4)"
    by (cases "githubApiRequest ?e4 (user_url ''octocat'') 3 initial_state") simp
  have st3: "status (plain_response 403) = 403" and st4: "status (plain_response 404) = 404"
    by (simp_all add: plain_response_def)
  have c: "githubUserCache initial_state = empty_cache" by (simp add: initial_state_def)
  from throttled_profile_not_cached[OF miss r3] st3
  have a: "fst (fetchGitHubUserInfo ?e3 ''octocat'' True initial_state) = Inr CNull"
    "githubUserCache (snd (fetchGitHubUserInfo ?e3 ''octocat'' True initial_state)) = empty_cache"
    "length (fetches (snd (fetchGitHubUserInfo ?e3 ''octocat'' True initial_state)))
       < length (fetches (snd (fetchGitHubUserInfo ?e3 ''octocat'' True
                                (snd (fetchGitHubUserInfo ?e3 ''octocat'' True initial_state)))))"
    by (simp_all add: c)
  from throttled_profile_not_cached[OF miss r4] st4
  have b: "fst (fetchGitHubUserInfo ?e4 ''octocat'' True initial_state) = Inr CNull"
    "fetchGitHubUserInfo ?e4 ''octocat'' True (snd (fetchGitHubUserInfo ?e4 ''octocat'' True initial_state))
       = (Inr CNull, snd (fetchGitHubUserInfo ?e4 ''octocat'' True initial_state))"
    by simp_all
  from miss a b show ?thesis by blast
qed

text \<open>
  C8 fails for a handle that names a property every JavaScript object inherits. On a fresh
  cache \<^verbatim>\<open>githubUserCache["constructor"]\<close> is the function \<^verbatim>\<open>Object\<close>, not
  \<^verbatim>\<open>undefined\<close>, so the fetch for the handle \<^verbatim>\<open>constructor\<close> returns that function as
  if it were cached, issues no request whatever the server would answer, and stores
  nothing.
\<close>

theorem inherited_handle_never_fetched:
  "fetchGitHubUserInfo e ''constructor'' True initial_state
     = (Inr (CForeign (Builtin ''constructor'')), initial_state)"
  by (simp add: fetchGitHubUserInfo_def initial_state_def empty_cache_def cache_get_def
      object_prototype_get_def object_prototype_keys_def)

section \<open>GitHub API client: repositories, languages, commits\<close>

text \<open>A number inside a template literal or under \<^verbatim>\<open>toString()\<close>: its decimal digits.\<close>

function digits_of :: "nat \<Rightarrow> string" where
  "digits_of n = (if n < 10 then [char_of (48 + n)] else digits_of (n div 10) @ [char_of (48 + n mod 10)])"
  by pat_completeness auto
termination
  by (relation "measure id") auto

definition int_toString :: "int \<Rightarrow> string" where
  "int_toString i = (if i < 0 then CHR ''-'' # digits_of (nat (- i)) else digits_of (nat i))"

text \<open>A field inside a template literal: \<^verbatim>\<open>`${repo.full_name}`\<close>.\<close>

definition in_template :: "string jsopt \<Rightarrow> string" where
  "in_template v = (case v of Undefined \<Rightarrow> ''undefined'' | Null \<Rightarrow> ''null'' | Val s \<Rightarrow> s)"

definition repos_page_url :: "string \<Rightarrow> nat \<Rightarrow> nat \<Rightarrow> string" where
  "repos_page_url githubUsername perPage page =
     ''https://api.github.com/users/'' @ githubUsername @ ''/repos?sort=updated&per_page=''
       @ digits_of perPage @ ''&page='' @ digits_of page"

definition user_repos_url :: "string \<Rightarrow> nat \<Rightarrow> string" where
  "user_repos_url githubUsername perPage =
     ''https://api.github.com/users/'' @ githubUsername @ ''/repos?sort=updated&per_page=''
       @ digits_of perPage"

definition repo_languages_url :: "repo_data \<Rightarrow> string" where
  "repo_languages_url repo =
     ''https://api.github.com/repos/'' @ in_template (repo_full_name repo) @ ''/languages''"

definition repo_commits_url :: "repo_data \<Rightarrow> string \<Rightarrow> string" where
  "repo_commits_url repo githubUsername =
     ''https://api.github.com/repos/'' @ in_template (repo_full_name repo) @ ''/commits?author=''
       @ githubUsername @ ''&per_page=10&sort=author-date&order=desc''"

definition json_repos :: "body \<Rightarrow> exn + repo_data list" where
  "json_repos b =
     (case b of Unreadable \<Rightarrow> Inl JsonError | ReposJson repos \<Rightarrow> Inr repos | _ \<Rightarrow> Inl TypeError)"

definition json_languages :: "body \<Rightarrow> exn + (string \<times> int) list" where
  "json_languages b =
     (case b of Unreadable \<Rightarrow> Inl JsonError | LanguagesJson ls \<Rightarrow> Inr ls | _ \<Rightarrow> Inl TypeError)"

definition json_commits :: "body \<Rightarrow> exn + commit_data list" where
  "json_commits b =
     (case b of Unreadable \<Rightarrow> Inl JsonError | CommitsJson cs \<Rightarrow> Inr cs | _ \<Rightarrow> Inl TypeError)"

subsection \<open>fetchUserRepositories\<close>

record repo =
  r_id :: "int jsopt"
  r_name :: "string jsopt"
  r_full_name :: "string jsopt"
  r_description :: string
  r_url :: "string jsopt"
  r_language :: "string jsopt"
  r_stars :: int
  r_forks :: int
  r_open_issues :: int
  r_is_private :: "bool jsopt"
  r_created_at :: "string jsopt"
  r_updated_at :: "string jsopt"
  r_pushed_at :: "string jsopt"
  r_default_branch :: "string jsopt"

text \<open>\<^verbatim>\<open>x || null\<close> on a string and \<^verbatim>\<open>x || 0\<close> on a number.\<close>

definition or_null :: "string jsopt \<Rightarrow> string jsopt" where
  "or_null v = (case v of Val s \<Rightarrow> if s = [] then Null else Val s | _ \<Rightarrow> Null)"

definition or_zero :: "int jsopt \<Rightarrow> int" where
  "or_zero v = (case v of Val n \<Rightarrow> n | _ \<Rightarrow> 0)"

definition repo_of :: "repo_data \<Rightarrow> repo" where
  "repo_of repo =
     \<lparr>r_id = repo_id repo,
      r_name = repo_name repo,
      r_full_name = repo_full_name repo,
      r_description = or_empty (repo_description repo),
      r_url = repo_html_url repo,
      r_language = or_null (repo_language repo),
      r_stars = or_zero (repo_stargazers_count repo),
      r_forks = or_zero (repo_forks_count repo),
      r_open_issues = or_zero (repo_open_issues_count repo),
      r_is_private = repo_private repo,
      r_created_at = repo_created_at repo,
      r_updated_at = repo_updated_at repo,
      r_pushed_at = repo_pushed_at repo,
      r_default_branch = repo_default_branch repo\<rparr>"

text \<open>\<^verbatim>\<open>repos.forEach(repo => { if (allRepos.length < limit) allRepos.push(...) })\<close>\<close>

definition push_repos :: "nat \<Rightarrow> repo list \<Rightarrow> repo_data list \<Rightarrow> repo list" where
  "push_repos limit allRepos repos =
     foldl (\<lambda>acc repo. if length acc < limit then acc @ [repo_of repo] else acc) allRepos repos"

fun str_includes :: "string \<Rightarrow> string \<Rightarrow> bool" where
  "str_includes [] sub = (sub = [])"
| "str_includes (c # s) sub = (prefix sub (c # s) \<or> str_includes s sub)"

definition rel_next :: string where
  "rel_next = ''rel='' @ [CHR 0x22] @ ''next'' @ [CHR 0x22]"

text \<open>
  \<^verbatim>\<open>hasMore = repos.length === perPage && (!linkHeader || linkHeader.includes('rel="next"'))\<close>
\<close>

definition more_pages :: "response \<Rightarrow> repo_data list \<Rightarrow> bool" where
  "more_pages r repos =
     (length repos = 100
      \<and> (case link r of None \<Rightarrow> True | Some linkHeader \<Rightarrow> linkHeader = [] \<or> str_includes linkHeader rel_next))"

lemma push_repos_length:
  "length (push_repos limit allRepos repos) = max (length allRepos) (min limit (length allRepos + length repos))"
  unfolding push_repos_def
  by (induction repos arbitrary: allRepos) auto

lemma page_shrinks_room:
  "repos \<noteq> [] \<Longrightarrow> n < limit \<Longrightarrow> limit - min limit (n + length repos) < limit - n"
  by (cases repos) auto

function repos_loop ::
  "env \<Rightarrow> string \<Rightarrow> nat \<Rightarrow> nat \<Rightarrow> bool \<Rightarrow> repo list \<Rightarrow> api_state \<Rightarrow> (exn + repo list) \<times> api_state" where
  "repos_loop e githubUsername limit page hasMore allRepos st =
     (if hasMore \<and> length allRepos < limit
      then (case githubApiRequest e (repos_page_url githubUsername 100 page) 3 st of
              (Inl error, st1) \<Rightarrow> (Inl error, st1)
            | (Inr r, st1) \<Rightarrow>
                if \<not> ok r
                then (if status r = 404 then (Inr allRepos, st1)
                      else if status r = 403 \<or> status r = 429 then (Inr allRepos, say LogWarn st1)
                      else (Inl (ApiError (status r)), st1))
                else (case json_repos (body r) of
                        Inl error \<Rightarrow> (Inl error, st1)
                      | Inr repos \<Rightarrow>
                          if repos = []
                          then repos_loop e githubUsername limit page False allRepos st1
                          else repos_loop e githubUsername limit (page + 1) (more_pages r repos)
                                 (push_repos limit allRepos repos)
                                 (if more_pages r repos then sleep 100 st1 else st1)))
      else (Inr allRepos, st))"
  by pat_completeness auto
termination
  by (relation "measure (\<lambda>(e, u, limit, page, hasMore, allRepos, st).
        2 * (limit - length allRepos) + (if hasMore then 1 else 0))")
     (auto simp: push_repos_length page_shrinks_room)

definition fetchUserRepositories :: "env \<Rightarrow> string \<Rightarrow> nat \<Rightarrow> api_state \<Rightarrow> (exn + repo list) \<times> api_state" where
  "fetchUserRepositories e githubUsername limit st =
     try_catch [] (repos_loop e githubUsername limit 1 True [] st)"

subsection \<open>Pagination\<close>

declare repos_loop.simps [simp del]

lemma push_repos_take:
  "push_repos limit allRepos repos = allRepos @ map repo_of (take (limit - length allRepos) repos)"
  unfolding push_repos_def
proof (induction repos arbitrary: allRepos)
  case Nil
  then show ?case by simp
next
  case (Cons repo repos)
  show ?case
  proof (cases "length allRepos < limit")
    case True
    then have "limit - length allRepos = Suc (limit - length (allRepos @ [repo_of repo]))" by simp
    then show ?thesis using True Cons.IH[of "allRepos @ [repo_of repo]"] by simp
  next
    case False
    then show ?thesis using Cons.IH[of allRepos] by simp
  qed
qed

lemma repos_loop_exit:
  "\<not> (hasMore \<and> length allRepos < limit) \<Longrightarrow>
   repos_loop e u limit page hasMore allRepos st = (Inr allRepos, st)"
  by (subst repos_loop.simps) auto

lemma repos_loop_step:
  assumes "length allRepos < limit"
    and "githubApiRequest e (repos_page_url u 100 page) 3 st = (res, st1)"
  shows "repos_loop e u limit page True allRepos st =
     (case res of
        Inl error \<Rightarrow> (Inl error, st1)
      | Inr r \<Rightarrow>
          if \<not> ok r
          then (if status r = 404 then (Inr allRepos, st1)
                else if status r = 403 \<or> status r = 429 then (Inr allRepos, say LogWarn st1)
                else (Inl (ApiError (status r)), st1))
          else (case json_repos (body r) of
                  Inl error \<Rightarrow> (Inl error, st1)
                | Inr repos \<Rightarrow>
                    if repos = [] then (Inr allRepos, st1)
                    else repos_loop e u limit (page + 1) (more_pages r repos)
                           (push_repos limit allRepos repos)
                           (if more_pages r repos then sleep 100 st1 else st1)))"
  using assms
  by (subst repos_loop.simps) (auto simp: repos_loop_exit split: sum.splits)

lemma repos_loop_bound:
  "length allRepos \<le> limit \<Longrightarrow>
   (case fst (repos_loop e u limit page hasMore allRepos st) of
      Inl error \<Rightarrow> True | Inr rs \<Rightarrow> length rs \<le> limit)"
proof (induction k \<equiv> "limit - length allRepos" arbitrary: allRepos page hasMore st rule: less_induct)
  case less
  show ?case
  proof (cases "hasMore \<and> length allRepos < limit")
    case False
    then show ?thesis using less.prems by (simp add: repos_loop_exit)
  next
    case True
    then have h: "hasMore = True" and lt: "length allRepos < limit" by simp_all
    obtain res st1 where req: "githubApiRequest e (repos_page_url u 100 page) 3 st = (res, st1)"
      by (cases "githubApiRequest e (repos_page_url u 100 page) 3 st") blast
    note step = repos_loop_step[OF lt req]
    show ?thesis
    proof (cases res)
      case (Inl error)
      then show ?thesis by (simp add: h step)
    next
      case (Inr r)
      show ?thesis
      proof (cases "ok r")
        case False
        then show ?thesis using Inr less.prems by (simp add: h step)
      next
        case True
        show ?thesis
        proof (cases "json_repos (body r)")
          case (Inl error)
          then show ?thesis using Inr True by (simp add: h step)
        next
          case repos: (Inr repos)
          show ?thesis
          proof (cases "repos = []")
            case True
            then show ?thesis using Inr \<open>ok r\<close> repos less.prems by (simp add: h step)
          next
            case False
            let ?all = "push_repos limit allRepos repos"
            have len: "length ?all \<le> limit" using less.prems by (simp add: push_repos_length)
            have "limit - length ?all < limit - length allRepos"
              using False lt by (simp add: push_repos_length page_shrinks_room)
            from less.hyps[OF this len]
            show ?thesis using Inr \<open>ok r\<close> repos False by (simp add: h step)
          qed
        qed
      qed
    qed
  qed
qed


lemma request_answered:
  assumes "hasToken e" and "server e (length (fetches st)) url True = Response r"
    and "status r \<noteq> 429" and "status r \<noteq> 403"
  shows "githubApiRequest e url 3 st = (Inr r, sent url e st)"
  using assms
  by (simp add: githubApiRequest_def) (subst attempts.simps, simp add: do_fetch_def sent_def)

lemma request_forbidden:
  assumes "hasToken e" and "server e (length (fetches st)) url True = Response r"
    and "status r = 403" and "rl_remaining r \<noteq> Some ''0''"
  shows "githubApiRequest e url 3 st = (Inr r, say LogWarn (sent url e st))"
  using assms
  by (simp add: githubApiRequest_def) (subst attempts.simps, simp add: do_fetch_def sent_def)



definition example_repo :: repo_data where
  "example_repo =
     \<lparr>repo_id = Val 1, repo_name = Val ''demo'', repo_full_name = Val ''octocat/demo'',
      repo_description = Null, repo_html_url = Undefined, repo_language = Val ''Go'',
      repo_stargazers_count = Val 5, repo_forks_count = Undefined, repo_open_issues_count = Undefined,
      repo_private = Val False, repo_created_at = Undefined, repo_updated_at = Undefined,
      repo_pushed_at = Undefined, repo_default_branch = Val ''main''\<rparr>"

definition repos_response :: "repo_data list \<Rightarrow> string option \<Rightarrow> response" where
  "repos_response repos linkHeader =
     \<lparr>status = 200, rl_remaining = None, rl_reset = None, link = linkHeader, body = ReposJson repos\<rparr>"

lemma hasToken_env_with: "hasToken (env_with answers)"
  by (simp add: hasToken_def env_with_def trim_def is_ws_def)


subsection \<open>fetchUserLanguages\<close>

text \<open>
  \<^verbatim>\<open>if (lang && lang.trim()) languageBreakdown[lang] = (languageBreakdown[lang] || 0) + bytes\<close>.
  The breakdown is a dictionary of language names, modelled like \<^verbatim>\<open>languageCounts\<close>.
\<close>

definition add_language :: "(string \<times> int) list \<Rightarrow> string \<times> int \<Rightarrow> (string \<times> int) list" where
  "add_language languageBreakdown entry =
     (if fst entry \<noteq> [] \<and> trim (fst entry) \<noteq> []
      then add_count languageBreakdown (fst entry) (snd entry)
      else languageBreakdown)"

text \<open>
  The loop over the repositories. An exception inside one round is caught and logged, and
  the loop goes on with the next repository; a 403 or 429 ends the loop.
\<close>

fun languages_loop ::
  "env \<Rightarrow> repo_data list \<Rightarrow> (string \<times> int) list \<Rightarrow> api_state \<Rightarrow> (string \<times> int) list \<times> api_state" where
  "languages_loop e [] languageBreakdown st = (languageBreakdown, st)"
| "languages_loop e (repo # rest) languageBreakdown st =
     (case githubApiRequest e (repo_languages_url repo) 3 st of
        (Inl error, st1) \<Rightarrow> languages_loop e rest languageBreakdown (say LogError st1)
      | (Inr langResponse, st1) \<Rightarrow>
          if ok langResponse
          then (case json_languages (body langResponse) of
                  Inl error \<Rightarrow> languages_loop e rest languageBreakdown (say LogError st1)
                | Inr repoLanguages \<Rightarrow>
                    languages_loop e rest (foldl add_language languageBreakdown repoLanguages)
                      (sleep 300 st1))
          else if status langResponse = 403 \<or> status langResponse = 429
          then (languageBreakdown, st1)
          else languages_loop e rest languageBreakdown (sleep 300 st1))"

definition fetchUserLanguages ::
  "env \<Rightarrow> string \<Rightarrow> nat \<Rightarrow> api_state \<Rightarrow> (exn + (string \<times> int) list) \<times> api_state" where
  "fetchUserLanguages e githubUsername limit st =
     try_catch []
       (if \<not> hasToken e then (Inr [], st)
        else (case githubApiRequest e (user_repos_url githubUsername limit) 3 st of
                (Inl error, st1) \<Rightarrow> (Inl error, st1)
              | (Inr reposResponse, st1) \<Rightarrow>
                  if \<not> ok reposResponse then (Inr [], st1)
                  else (case json_repos (body reposResponse) of
                          Inl error \<Rightarrow> (Inl error, st1)
                        | Inr repos \<Rightarrow>
                            (let reposToCheck = take (min 20 (length repos)) repos;
                                 (languageBreakdown, st2) = languages_loop e reposToCheck [] st1
                             in (Inr languageBreakdown, st2)))))"

subsection \<open>fetchRecentCommits\<close>

record commit =
  c_sha :: "string jsopt"
  c_message :: string
  c_author :: "string jsopt"
  c_date :: "int option"
  c_url :: "string jsopt"
  c_repository :: "string jsopt"
  c_repositoryUrl :: "string jsopt"

text \<open>\<^verbatim>\<open>message.split('\n')[0]\<close>: the text before the first line feed.\<close>

definition first_line :: "string \<Rightarrow> string" where
  "first_line message = takeWhile (\<lambda>c. c \<noteq> CHR 0x0A) message"

definition commit_of :: "repo_data \<Rightarrow> commit_data \<Rightarrow> commit_detail \<Rightarrow> commit" where
  "commit_of repo c d =
     \<lparr>c_sha = commit_sha c,
      c_message = first_line (detail_message d),
      c_author = detail_author d,
      c_date = detail_date d,
      c_url = commit_html_url c,
      c_repository = repo_full_name repo,
      c_repositoryUrl = repo_html_url repo\<rparr>"

text \<open>
  \<^verbatim>\<open>commits.forEach(commit => { if (allCommits.length < limit) allCommits.push(...) })\<close>.
  Building an entry reads \<^verbatim>\<open>commit.commit\<close>; when that read fails the \<^verbatim>\<open>forEach\<close> is left
  with the exception (\<open>True\<close>), the entries pushed before it staying in the array.
\<close>

fun push_commits :: "nat \<Rightarrow> repo_data \<Rightarrow> commit list \<Rightarrow> commit_data list \<Rightarrow> commit list \<times> bool" where
  "push_commits limit repo allCommits [] = (allCommits, False)"
| "push_commits limit repo allCommits (c # cs) =
     (if length allCommits < limit
      then (case commit_detail c of
              None \<Rightarrow> (allCommits, True)
            | Some d \<Rightarrow> push_commits limit repo (allCommits @ [commit_of repo c d]) cs)
      else push_commits limit repo allCommits cs)"

fun commits_loop ::
  "env \<Rightarrow> string \<Rightarrow> nat \<Rightarrow> repo_data list \<Rightarrow> commit list \<Rightarrow> api_state \<Rightarrow> commit list \<times> api_state" where
  "commits_loop e githubUsername limit [] allCommits st = (allCommits, st)"
| "commits_loop e githubUsername limit (repo # rest) allCommits st =
     (if length allCommits \<ge> limit then (allCommits, st)
      else (case githubApiRequest e (repo_commits_url repo githubUsername) 3 st of
              (Inl error, st1) \<Rightarrow> commits_loop e githubUsername limit rest allCommits (say LogError st1)
            | (Inr commitsResponse, st1) \<Rightarrow>
                if ok commitsResponse
                then (case json_commits (body commitsResponse) of
                        Inl error \<Rightarrow>
                          commits_loop e githubUsername limit rest allCommits (say LogError st1)
                      | Inr pageCommits \<Rightarrow>
                          (case push_commits limit repo allCommits pageCommits of
                             (allCommits', True) \<Rightarrow>
                               commits_loop e githubUsername limit rest allCommits' (say LogError st1)
                           | (allCommits', False) \<Rightarrow>
                               commits_loop e githubUsername limit rest allCommits' (sleep 300 st1)))
                else if status commitsResponse = 403 \<or> status commitsResponse = 429
                then (allCommits, st1)
                else commits_loop e githubUsername limit rest allCommits (sleep 300 st1)))"

text \<open>
  \<^verbatim>\<open>(a, b) => new Date(b.date) - new Date(a.date)\<close>: the difference of the two times; with an
  invalid date it is \<^verbatim>\<open>NaN\<close>, which \<^verbatim>\<open>sort\<close> takes as \<open>0\<close>.
\<close>

definition by_date_desc :: "commit \<Rightarrow> commit \<Rightarrow> int" where
  "by_date_desc a b =
     (case (c_date b, c_date a) of (Some tb, Some ta) \<Rightarrow> tb - ta | _ \<Rightarrow> 0)"

definition fetchRecentCommits ::
  "env \<Rightarrow> string \<Rightarrow> nat \<Rightarrow> api_state \<Rightarrow> (exn + commit list) \<times> api_state" where
  "fetchRecentCommits e githubUsername limit st =
     try_catch []
       (if \<not> hasToken e then (Inr [], st)
        else (case githubApiRequest e (user_repos_url githubUsername 10) 3 st of
                (Inl error, st1) \<Rightarrow> (Inl error, st1)
              | (Inr reposResponse, st1) \<Rightarrow>
                  if \<not> ok reposResponse then (Inr [], st1)
                  else (case json_repos (body reposResponse) of
                          Inl error \<Rightarrow> (Inl error, st1)
                        | Inr repos \<Rightarrow>
                            (let (allCommits, st2) =
                                   commits_loop e githubUsername limit (take 10 repos) [] st1
                             in (Inr (take limit (js_sort by_date_desc allCommits)), st2)))))"

subsection \<open>Failures end in the default result\<close>

text \<open>
  The remote call of a fetcher fails when its request is rejected, is answered with a
  status outside 200 to 299, or is answered with a body the fetcher cannot read.
\<close>

definition remote_failure :: "(body \<Rightarrow> exn + 'a) \<Rightarrow> exn + response \<Rightarrow> bool" where
  "remote_failure json res =
     (case res of
        Inl error \<Rightarrow> True
      | Inr r \<Rightarrow> (if ok r then (case json (body r) of Inl error \<Rightarrow> True | Inr v \<Rightarrow> False) else True))"

lemma try_catch_returns: "\<exists>v. fst (try_catch dflt res) = Inr v"
  by (cases res) (auto simp: try_catch_def split: sum.splits)

lemma profile_failure:
  assumes "cache_get (githubUserCache st) u = None"
    and "remote_failure json_user (fst (githubApiRequest e (user_url u) 3 st))"
  shows "fst (fetchGitHubUserInfo e u True st) = Inr CNull"
proof (cases "githubApiRequest e (user_url u) 3 st")
  case (Pair res st1)
  then show ?thesis
    using assms
    by (cases res)
       (auto simp: fetchGitHubUserInfo_def user_info_request_def try_catch_def remote_failure_def
          split: sum.splits if_splits)
qed

lemma repositories_failure:
  assumes "remote_failure json_repos (fst (githubApiRequest e (repos_page_url u 100 1) 3 st))"
  shows "fst (fetchUserRepositories e u limit st) = Inr []"
proof (cases "0 < limit")
  case False
  then show ?thesis by (simp add: fetchUserRepositories_def repos_loop_exit try_catch_def)
next
  case True
  obtain res st1 where req: "githubApiRequest e (repos_page_url u 100 1) 3 st = (res, st1)"
    by (cases "githubApiRequest e (repos_page_url u 100 1) 3 st") blast
  have lt: "length ([] :: repo list) < limit" using True by simp
  show ?thesis
    using assms req repos_loop_step[OF lt req]
    by (cases res)
       (auto simp: fetchUserRepositories_def try_catch_def remote_failure_def
          split: sum.splits if_splits)
qed

lemma languages_failure:
  assumes "remote_failure json_repos (fst (githubApiRequest e (user_repos_url u limit) 3 st))"
  shows "fst (fetchUserLanguages e u limit st) = Inr []"
proof (cases "githubApiRequest e (user_repos_url u limit) 3 st")
  case (Pair res st1)
  then show ?thesis
    using assms
    by (cases res)
       (auto simp: fetchUserLanguages_def try_catch_def remote_failure_def
          split: sum.splits if_splits)
qed

lemma commits_failure:
  assumes "remote_failure json_repos (fst (githubApiRequest e (user_repos_url u 10) 3 st))"
  shows "fst (fetchRecentCommits e u limit st) = Inr []"
proof (cases "githubApiRequest e (user_repos_url u 10) 3 st")
  case (Pair res st1)
  then show ?thesis
    using assms
    by (cases res)
       (auto simp: fetchRecentCommits_def try_catch_def remote_failure_def
          split: sum.splits if_splits)
qed



text \<open>An environment without a credential whose server knows the user and one repository.\<close>

definition example_user :: user_data where
  "example_user =
     \<lparr>data_login = Val ''octocat'', data_name = Null, data_avatar_url = Undefined,
      data_html_url = Undefined, data_public_repos = Val 8, data_followers = Val 0,
      data_following = Val 0, data_bio = Null, data_location = Undefined, data_blog = Val [],
      data_company = Undefined\<rparr>"

definition anonymous_env :: "body \<Rightarrow> env" where
  "anonymous_env b =
     \<lparr>GITHUB_TOKEN = ''VITE_GITHUB_TOKEN'',
      server = (\<lambda>k url authorised. Response ((plain_response 200)\<lparr>body := b\<rparr>)),
      date_now = (\<lambda>k. 1000000)\<rparr>"

lemma anonymous_request:
  "githubApiRequest (anonymous_env b) url 3 initial_state
     = (Inr ((plain_response 200)\<lparr>body := b\<rparr>),
        initial_state\<lparr>fetches := [(url, False)], console := [LogWarn], tokenWarningShown := True\<rparr>)"
  by (simp add: githubApiRequest_def hasToken_def anonymous_env_def initial_state_def say_def)
     (subst attempts.simps, simp add: do_fetch_def hasToken_def plain_response_def)



section \<open>Data store (loadFromCache, saveToCache, loadMembersData, setMembers)\<close>

text \<open>
  The platform of the data store: \<^verbatim>\<open>JSON.stringify\<close> and \<^verbatim>\<open>JSON.parse\<close> on member
  collections (\<open>None\<close>: the call throws), the operations of \<^verbatim>\<open>localStorage\<close> that throw
  (a full or a disabled storage), the document store (\<open>getDocs k\<close> is the outcome of the
  \<open>k\<close>-th query of the \<^verbatim>\<open>Members\<close> collection, the documents with their ids merged in, or
  \<open>None\<close> when the query is rejected), and the clock (\<open>clock k\<close> is the \<open>k\<close>-th reading of
  \<^verbatim>\<open>Date.now()\<close>). A parsed collection is an array, which is truthy even when empty.
\<close>

record 'm platform =
  stringify :: "'m list \<Rightarrow> string option"
  parse :: "string \<Rightarrow> 'm list option"
  setItem_throws :: "string \<Rightarrow> string \<Rightarrow> bool"
  getItem_throws :: "string \<Rightarrow> bool"
  removeItem_throws :: "string \<Rightarrow> bool"
  getDocs :: "nat \<Rightarrow> 'm list option"
  clock :: "nat \<Rightarrow> int"

record 'm store =
  members :: "'m list"
  lastFetchTime :: jsnum
  localStorage :: "string \<rightharpoonup> string"
  store_console :: "log list"
  queries :: nat
  clock_reads :: nat

definition CACHE_KEY :: string where
  "CACHE_KEY = ''members_cache''"

definition CACHE_TIMESTAMP_KEY :: string where
  "CACHE_TIMESTAMP_KEY = ''members_cache_timestamp''"

definition empty_store :: "'m store" where
  "empty_store = \<lparr>members = [], lastFetchTime = Num 0, localStorage = Map.empty,
     store_console = [], queries = 0, clock_reads = 0\<rparr>"

definition record_log :: "log \<Rightarrow> 'm store \<Rightarrow> 'm store" where
  "record_log l d = d\<lparr>store_console := store_console d @ [l]\<rparr>"

text \<open>A string from \<^verbatim>\<open>getItem\<close> is falsy when it is \<^verbatim>\<open>null\<close> or empty.\<close>

definition loadFromCache :: "'m platform \<Rightarrow> 'm store \<Rightarrow> 'm list option \<times> 'm store" where
  "loadFromCache p d =
     (if getItem_throws p CACHE_KEY \<or> getItem_throws p CACHE_TIMESTAMP_KEY
      then (None, record_log LogError d)
      else (let cachedData = localStorage d CACHE_KEY;
                cachedTimestamp = localStorage d CACHE_TIMESTAMP_KEY
            in if \<not> truthy_str cachedData \<or> \<not> truthy_str cachedTimestamp then (None, d)
               else (case parse p (str_or_empty cachedData) of
                       None \<Rightarrow> (None, record_log LogError d)
                     | Some parsed \<Rightarrow>
                         (Some parsed,
                          record_log LogInfo
                            (d\<lparr>members := parsed,
                               lastFetchTime := parseInt (str_or_empty cachedTimestamp)\<rparr>)))))"

text \<open>
  The \<^verbatim>\<open>catch\<close> block of \<^verbatim>\<open>saveToCache\<close>: log, then remove both keys; a removal that
  throws is logged and ends the clean-up.
\<close>

definition clear_after_failure :: "'m platform \<Rightarrow> 'm store \<Rightarrow> 'm store" where
  "clear_after_failure p d =
     (let d1 = record_log LogError d
      in if removeItem_throws p CACHE_KEY then record_log LogError d1
         else (let d2 = d1\<lparr>localStorage := (localStorage d1)(CACHE_KEY := None)\<rparr>
               in if removeItem_throws p CACHE_TIMESTAMP_KEY then record_log LogError d2
                  else d2\<lparr>localStorage := (localStorage d2)(CACHE_TIMESTAMP_KEY := None)\<rparr>))"

definition saveToCache :: "'m platform \<Rightarrow> 'm list \<Rightarrow> 'm store \<Rightarrow> 'm store" where
  "saveToCache p membersData d =
     (let timestamp = clock p (clock_reads d);
          d0 = d\<lparr>clock_reads := clock_reads d + 1\<rparr>
      in case stringify p membersData of
           None \<Rightarrow> clear_after_failure p d0
         | Some json \<Rightarrow>
             if setItem_throws p CACHE_KEY json then clear_after_failure p d0
             else (let d1 = d0\<lparr>localStorage := (localStorage d0)(CACHE_KEY \<mapsto> json)\<rparr>
                   in if setItem_throws p CACHE_TIMESTAMP_KEY (int_toString timestamp)
                      then clear_after_failure p d1
                      else record_log LogInfo
                             (d1\<lparr>localStorage :=
                                    (localStorage d1)(CACHE_TIMESTAMP_KEY \<mapsto> int_toString timestamp),
                                 lastFetchTime := Num timestamp\<rparr>)))"

definition clearMembersCache :: "'m platform \<Rightarrow> 'm store \<Rightarrow> 'm store" where
  "clearMembersCache p d =
     (if removeItem_throws p CACHE_KEY then record_log LogError d
      else (let d1 = d\<lparr>localStorage := (localStorage d)(CACHE_KEY := None)\<rparr>
            in if removeItem_throws p CACHE_TIMESTAMP_KEY then record_log LogError d1
               else record_log LogInfo (d1\<lparr>localStorage := (localStorage d1)(CACHE_TIMESTAMP_KEY := None)\<rparr>)))"

text \<open>The part of \<^verbatim>\<open>loadMembersData\<close> after the cache has been tried: the query.\<close>

definition fetch_from_firebase :: "'m platform \<Rightarrow> 'm store \<Rightarrow> 'm list \<times> 'm store" where
  "fetch_from_firebase p d =
     (let d1 = (record_log LogInfo d)\<lparr>queries := queries d + 1\<rparr>
      in case getDocs p (queries d) of
           Some docs \<Rightarrow>
             (let d2 = saveToCache p docs (d1\<lparr>members := docs\<rparr>)
              in (members d2, d2))
         | None \<Rightarrow>
             (case loadFromCache p (record_log LogError d1) of
                (Some cached, d2) \<Rightarrow> (cached, record_log LogInfo d2)
              | (None, d2) \<Rightarrow> ([], d2\<lparr>members := []\<rparr>)))"

definition loadMembersData :: "'m platform \<Rightarrow> bool \<Rightarrow> 'm store \<Rightarrow> 'm list \<times> 'm store" where
  "loadMembersData p skipCache d =
     (if \<not> skipCache
      then (case loadFromCache p d of
              (Some cached, d1) \<Rightarrow> (cached, record_log LogInfo d1)
            | (None, d1) \<Rightarrow> fetch_from_firebase p d1)
      else fetch_from_firebase p d)"

definition getMembers :: "'m store \<Rightarrow> 'm list" where
  "getMembers d = members d"

definition setMembers :: "'m platform \<Rightarrow> 'm list \<Rightarrow> 'm store \<Rightarrow> 'm store" where
  "setMembers p newMembers d = saveToCache p newMembers (d\<lparr>members := newMembers\<rparr>)"

definition isCacheFresh :: "'m store \<Rightarrow> bool" where
  "isCacheFresh d =
     (truthy_str (localStorage d CACHE_KEY) \<and> truthy_str (localStorage d CACHE_TIMESTAMP_KEY))"

subsection \<open>Saving and loading\<close>

declare digits_of.simps [simp del]

lemma digits_of_nonempty: "digits_of n \<noteq> []"
  by (subst digits_of.simps) simp

lemma int_toString_nonempty: "int_toString i \<noteq> []"
  by (simp add: int_toString_def digits_of_nonempty)

text \<open>
  Persisting a collection succeeds when neither \<^verbatim>\<open>JSON.stringify\<close> nor one of the two
  \<^verbatim>\<open>setItem\<close> calls throws; \<open>t\<close> is the time stamp being written.
\<close>

definition save_succeeds :: "'m platform \<Rightarrow> 'm list \<Rightarrow> int \<Rightarrow> bool" where
  "save_succeeds p xs t =
     (case stringify p xs of
        None \<Rightarrow> False
      | Some json \<Rightarrow> \<not> setItem_throws p CACHE_KEY json
                     \<and> \<not> setItem_throws p CACHE_TIMESTAMP_KEY (int_toString t))"

lemma keys_differ: "CACHE_KEY \<noteq> CACHE_TIMESTAMP_KEY"
  by (simp add: CACHE_KEY_def CACHE_TIMESTAMP_KEY_def)

lemma saveToCache_success:
  assumes "save_succeeds p xs (clock p (clock_reads d))" and "stringify p xs = Some json"
  shows "localStorage (saveToCache p xs d) CACHE_KEY = Some json"
    and "localStorage (saveToCache p xs d) CACHE_TIMESTAMP_KEY = Some (int_toString (clock p (clock_reads d)))"
    and "members (saveToCache p xs d) = members d"
    and "queries (saveToCache p xs d) = queries d"
  using assms keys_differ
  by (auto simp: saveToCache_def save_succeeds_def Let_def record_log_def)

lemma clear_after_failure_frame:
  "members (clear_after_failure p d) = members d"
  "queries (clear_after_failure p d) = queries d"
  by (simp_all add: clear_after_failure_def Let_def record_log_def)

lemma clear_after_failure_removes:
  assumes "\<not> removeItem_throws p CACHE_KEY" and "\<not> removeItem_throws p CACHE_TIMESTAMP_KEY"
  shows "localStorage (clear_after_failure p d) CACHE_KEY = None"
    and "localStorage (clear_after_failure p d) CACHE_TIMESTAMP_KEY = None"
    and "store_console (clear_after_failure p d) = store_console d @ [LogError]"
  using assms keys_differ by (simp_all add: clear_after_failure_def Let_def record_log_def)

lemma saveToCache_failure:
  assumes "\<not> save_succeeds p xs (clock p (clock_reads d))"
  shows "\<exists>d'. saveToCache p xs d = clear_after_failure p d'
            \<and> members d' = members d \<and> queries d' = queries d \<and> store_console d' = store_console d"
  using assms
  by (auto simp: saveToCache_def save_succeeds_def Let_def split: option.splits)


lemma loadFromCache_hit:
  assumes "localStorage d CACHE_KEY = Some json" and "json \<noteq> []"
    and "localStorage d CACHE_TIMESTAMP_KEY = Some ts" and "ts \<noteq> []"
    and "parse p json = Some xs"
    and "\<not> getItem_throws p CACHE_KEY" and "\<not> getItem_throws p CACHE_TIMESTAMP_KEY"
  shows "fst (loadFromCache p d) = Some xs"
    and "members (snd (loadFromCache p d)) = xs"
    and "queries (snd (loadFromCache p d)) = queries d"
  using assms
  by (simp_all add: loadFromCache_def Let_def truthy_str_def str_or_empty_def record_log_def)

text \<open>
  A platform for the examples: collections of numbers, a codec that knows the collections
  \<open>[7]\<close> and \<open>[]\<close>, a storage that is full or not, and a document store holding \<open>[3]\<close>.
\<close>

definition example_platform :: "bool \<Rightarrow> nat platform" where
  "example_platform full =
     \<lparr>stringify = (\<lambda>xs. if xs = [7] then Some ''[7]'' else Some ''[]''),
      parse = (\<lambda>s. if s = ''[7]'' then Some [7] else Some []),
      setItem_throws = (\<lambda>k v. full),
      getItem_throws = (\<lambda>k. False),
      removeItem_throws = (\<lambda>k. False),
      getDocs = (\<lambda>k. Some [3]),
      clock = (\<lambda>k. 1700000000000)\<rparr>"




text \<open>
  C7 (amended). When persisting a collection fails and the two removals do not throw,
  the failure is logged as an error, both keys are absent afterwards, and the in-memory
  collection is untouched: after \<^verbatim>\<open>setMembers(X)\<close> it is \<open>X\<close>, and a forced
  \<^verbatim>\<open>loadMembersData\<close> whose query delivers \<open>X\<close> returns \<open>X\<close> and keeps it in memory.
\<close>

theorem persist_failure:
  assumes "\<not> save_succeeds p X (clock p (clock_reads d))"
    and "\<not> removeItem_throws p CACHE_KEY" and "\<not> removeItem_throws p CACHE_TIMESTAMP_KEY"
  shows "localStorage (saveToCache p X d) CACHE_KEY = None
       \<and> localStorage (saveToCache p X d) CACHE_TIMESTAMP_KEY = None
       \<and> store_console (saveToCache p X d) = store_console d @ [LogError]
       \<and> members (saveToCache p X d) = members d
       \<and> getMembers (setMembers p X d) = X
       \<and> (getDocs p (queries d) = Some X \<longrightarrow>
            fst (loadMembersData p True d) = X
          \<and> getMembers (snd (loadMembersData p True d)) = X
          \<and> \<not> isCacheFresh (snd (loadMembersData p True d)))"
proof -
  have fail: "localStorage (saveToCache p X d') CACHE_KEY = None
       \<and> localStorage (saveToCache p X d') CACHE_TIMESTAMP_KEY = None
       \<and> store_console (saveToCache p X d') = store_console d' @ [LogError]
       \<and> members (saveToCache p X d') = members d'"
    if "clock_reads d' = clock_reads d" for d'
  proof -
    have "\<not> save_succeeds p X (clock p (clock_reads d'))" using assms(1) that by simp
    from saveToCache_failure[OF this] obtain d'' where
      "saveToCache p X d' = clear_after_failure p d''" "members d'' = members d'"
      "store_console d'' = store_console d'"
      by blast
    then show ?thesis
      using clear_after_failure_removes[OF assms(2,3), of d''] clear_after_failure_frame(1)[of p d'']
      by simp
  qed
  have a: "getMembers (setMembers p X d) = X"
    using fail[of "d\<lparr>members := X\<rparr>"] by (simp add: setMembers_def getMembers_def)
  have b: "fst (loadMembersData p True d) = X
          \<and> getMembers (snd (loadMembersData p True d)) = X
          \<and> \<not> isCacheFresh (snd (loadMembersData p True d))"
    if "getDocs p (queries d) = Some X"
    using fail[of "(record_log LogInfo d)\<lparr>queries := queries d + 1, members := X\<rparr>"] that
    by (simp add: loadMembersData_def fetch_from_firebase_def Let_def getMembers_def
        isCacheFresh_def truthy_str_def record_log_def)
  from fail[of d] a b show ?thesis by simp
qed

theorem persist_failure_witness:
  "\<not> save_succeeds (example_platform True) [3] (clock (example_platform True) (clock_reads empty_store))
   \<and> getDocs (example_platform True) (queries empty_store) = Some [3]
   \<and> store_console (saveToCache (example_platform True) [3] empty_store) = [LogError]
   \<and> localStorage (saveToCache (example_platform True) [3] empty_store) CACHE_KEY = None
   \<and> fst (loadMembersData (example_platform True) True empty_store) = [3]
   \<and> getMembers (snd (loadMembersData (example_platform True) True empty_store)) = [3]"
proof -
  let ?p = "example_platform True"
  have a: "\<not> save_succeeds ?p [3] (clock ?p (clock_reads empty_store))"
    by (simp add: save_succeeds_def example_platform_def)
  have b: "\<not> removeItem_throws ?p CACHE_KEY" and c: "\<not> removeItem_throws ?p CACHE_TIMESTAMP_KEY"
    and g: "getDocs ?p (queries empty_store) = Some [3]"
    by (simp_all add: example_platform_def)
  from persist_failure[OF a b c] a g show ?thesis
    by (simp add: empty_store_def)
qed

text \<open>
  After a failed save the in-memory collection is not empty: it is the collection that
  was being saved.
\<close>

theorem persist_failure_counterexample:
  "\<not> save_succeeds (example_platform True) [7] (clock (example_platform True) (clock_reads empty_store))
   \<and> getMembers (setMembers (example_platform True) [7] empty_store) = [7]
   \<and> getMembers (snd (loadMembersData (example_platform True) True empty_store)) = [3]"
  by (simp add: save_succeeds_def getMembers_def setMembers_def saveToCache_def
      clear_after_failure_def loadMembersData_def fetch_from_firebase_def example_platform_def
      empty_store_def record_log_def Let_def)

end
